theory Spec2Isabelle
  imports Main "HOL-Library.Char_ord"
begin

section \<open>Data model\<close>

text \<open>
  The argument processor of zli (\<^verbatim>\<open>index.ts\<close>): \<^verbatim>\<open>parseFlags\<close>, \<^verbatim>\<open>resolveAliases\<close>,
  \<^verbatim>\<open>camelToKebab\<close>, \<^verbatim>\<open>resolveKebabCase\<close>, \<^verbatim>\<open>normalizeArrayFields\<close>, \<^verbatim>\<open>isZodArrayType\<close>,
  \<^verbatim>\<open>validateOptions\<close>, \<^verbatim>\<open>processCommandExecution\<close> and \<^verbatim>\<open>processConfig\<close>.

  Modelling decisions:
  \<^item> A JavaScript value that can sit in the flag object is a \<open>jsval\<close>: a boolean, a string,
    a number, an array of values, or a built-in that the object inherits: \<open>VInherited n\<close> is
    the member \<open>n\<close> of \<^verbatim>\<open>Object.prototype\<close> (a function; for \<^verbatim>\<open>__proto__\<close> the object
    \<^verbatim>\<open>Object.prototype\<close> itself) and \<open>VArrayMember n\<close> the member \<open>n\<close> of \<^verbatim>\<open>Array.prototype\<close>.
  \<^item> A JavaScript object used as a dictionary is the map of its own properties
    (\<open>string \<rightharpoonup> jsval\<close>) under the prototype \<^verbatim>\<open>Object.prototype\<close>, whose members are found by
    \<^verbatim>\<open>key in obj\<close> and \<^verbatim>\<open>obj[key]\<close> as well. An object cannot get an own property
    \<^verbatim>\<open>__proto__\<close> by assignment: the assignment replaces its prototype. The entry of the map
    at \<^verbatim>\<open>__proto__\<close> therefore stands for the prototype of the object, when it has been
    replaced (see \<open>setProperty\<close>).
  \<^item> A string is a list of characters, one character per UTF-16 code unit.
  \<^item> The zod schema is the external validator. Of a schema the code uses the ordered
    field list \<^verbatim>\<open>schema.shape\<close>, the wrapper structure of each field type and the function
    \<^verbatim>\<open>schema.parse\<close>, which returns a value or throws; it is a parameter of the model.
  \<^item> A thrown exception is a value of type \<open>error\<close>: a plain \<^verbatim>\<open>Error\<close> with its message, or
    the validator's own \<^verbatim>\<open>ZodError\<close> with its issues.
  \<^item> \<^verbatim>\<open>console.log\<close> output is abstracted to the help screen that was printed;
    \<^verbatim>\<open>process.exit(0)\<close> is the outcome \<open>Exit 0\<close>.
\<close>

datatype jsval =
    VBool bool
  | VStr string
  | VNum int
  | VArr "jsval list"
  | VInherited string
  | VArrayMember string

type_synonym bag = "string \<rightharpoonup> jsval"

fun isArray :: "jsval \<Rightarrow> bool" where
  "isArray (VArr xs) = True"
| "isArray v = False"

text \<open>Objects as opposed to primitive values: arrays and built-ins.\<close>

fun isObject :: "jsval \<Rightarrow> bool" where
  "isObject (VBool b) = False"
| "isObject (VStr s) = False"
| "isObject (VNum n) = False"
| "isObject v = True"

record issue =
  path :: "string list"
  message :: string

datatype error = Error string | ZodError "issue list"

datatype zodType =
    ZodString
  | ZodNumber
  | ZodBoolean
  | ZodArray zodType
  | ZodOptional zodType
  | ZodDefault zodType
  | ZodNullable zodType

record zodObject =
  shape :: "(string \<times> zodType) list"
  parse :: "bag \<Rightarrow> error + bag"

record optionsDefinition =
  schema :: zodObject
  aliases :: "(string \<times> string) list option"

record commandDefinition =
  description :: "string option"
  options :: "optionsDefinition option"
  args :: "(string list \<Rightarrow> error + jsval) option"

record defineConfig =
  commands :: "string \<rightharpoonup> commandDefinition"
  defaultCommand :: "commandDefinition option"

record processResult =
  command :: commandDefinition
  res_options :: bag
  res_args :: jsval

datatype screen = DisplayHelp | DisplayCommandHelp string

text \<open>
  The outcome of \<^verbatim>\<open>processConfig\<close>. \<open>ReturnInherited n a\<close> is the result object whose
  \<^verbatim>\<open>command\<close> is not a command definition but the member \<open>n\<close> of \<^verbatim>\<open>Object.prototype\<close>, with
  the options \<^verbatim>\<open>{}\<close> and the args \<open>a\<close>.
\<close>

datatype outcome =
    Return processResult
  | Throw error
  | Exit nat
  | ReturnInherited string jsval

section \<open>String helpers\<close>

definition startsWith :: "string \<Rightarrow> string \<Rightarrow> bool" where
  "startsWith s p = (take (length p) s = p)"

text \<open>\<^verbatim>\<open>s.split(sep)\<close> for a one-character separator.\<close>

fun split_str :: "char \<Rightarrow> string \<Rightarrow> string list" where
  "split_str sep [] = [[]]"
| "split_str sep (c # cs) =
     (if c = sep then [] # split_str sep cs
      else (case split_str sep cs of
              p # ps \<Rightarrow> (c # p) # ps
            | [] \<Rightarrow> [[c]]))"

text \<open>\<^verbatim>\<open>parts.join(sep)\<close>.\<close>

fun join_str :: "string \<Rightarrow> string list \<Rightarrow> string" where
  "join_str sep [] = []"
| "join_str sep [p] = p"
| "join_str sep (p # q # ps) = p @ sep @ join_str sep (q # ps)"

definition isUpper :: "char \<Rightarrow> bool" where
  "isUpper c = (CHR ''A'' \<le> c \<and> c \<le> CHR ''Z'')"

definition toLowerCase :: "char \<Rightarrow> char" where
  "toLowerCase c = (if isUpper c then char_of (of_char c + (32::nat)) else c)"

text \<open>\<^verbatim>\<open>str.replace(/[A-Z]/g, (letter) => `-${letter.toLowerCase()}`)\<close>.\<close>

definition camelToKebab :: "string \<Rightarrow> string" where
  "camelToKebab str =
     concat (map (\<lambda>c. if isUpper c then [CHR ''-'', toLowerCase c] else [c]) str)"

text \<open>The ANSI colouring \<^verbatim>\<open>\x1b[36m...\x1b[0m\<close> of the error messages.\<close>

definition cyan :: "string \<Rightarrow> string" where
  "cyan s = CHR 0x1B # ''[36m'' @ s @ CHR 0x1B # ''[0m''"

section \<open>Objects and their prototypes\<close>

text \<open>
  The string-keyed members of \<^verbatim>\<open>Object.prototype\<close>. All are writable data properties, but
  \<^verbatim>\<open>__proto__\<close>, which is an accessor: its getter returns the prototype of the object, its
  setter replaces it.
\<close>

definition objectPrototypeKeys :: "string list" where
  "objectPrototypeKeys =
     [''constructor'', ''__defineGetter__'', ''__defineSetter__'', ''hasOwnProperty'',
      ''__lookupGetter__'', ''__lookupSetter__'', ''isPrototypeOf'', ''propertyIsEnumerable'',
      ''toString'', ''valueOf'', ''__proto__'', ''toLocaleString'']"

text \<open>The string-keyed members of \<^verbatim>\<open>Array.prototype\<close> (ECMAScript 2023), all writable.\<close>

definition arrayPrototypeKeys :: "string list" where
  "arrayPrototypeKeys =
     [''length'', ''constructor'', ''at'', ''concat'', ''copyWithin'', ''fill'', ''find'',
      ''findIndex'', ''findLast'', ''findLastIndex'', ''lastIndexOf'', ''pop'', ''push'',
      ''reverse'', ''shift'', ''unshift'', ''slice'', ''sort'', ''splice'', ''includes'',
      ''indexOf'', ''join'', ''keys'', ''entries'', ''values'', ''forEach'', ''filter'',
      ''flat'', ''flatMap'', ''map'', ''every'', ''some'', ''reduce'', ''reduceRight'',
      ''toLocaleString'', ''toString'', ''toReversed'', ''toSorted'', ''toSpliced'', ''with'']"

definition isDigit :: "char \<Rightarrow> bool" where
  "isDigit c = (CHR ''0'' \<le> c \<and> c \<le> CHR ''9'')"

text \<open>The array index that a property key denotes: a decimal numeral without leading zero.\<close>

definition arrayIndex :: "string \<Rightarrow> nat option" where
  "arrayIndex key =
     (if key \<noteq> [] \<and> list_all isDigit key \<and> (length key = 1 \<or> hd key \<noteq> CHR ''0'')
      then Some (foldl (\<lambda>n c. 10 * n + (of_char c - 48)) 0 key)
      else None)"

text \<open>The own properties of an array: its elements and its length.\<close>

definition arrayOwn :: "jsval list \<Rightarrow> string \<Rightarrow> jsval option" where
  "arrayOwn xs key =
     (if key = ''length'' then Some (VNum (int (length xs)))
      else (case arrayIndex key of
              Some i \<Rightarrow> if i < length xs then Some (xs ! i) else None
            | None \<Rightarrow> None))"

definition objectMember :: "string \<Rightarrow> jsval option" where
  "objectMember key = (if key \<in> set objectPrototypeKeys then Some (VInherited key) else None)"

text \<open>
  What \<^verbatim>\<open>obj[key]\<close> finds on the prototype chain of \<open>obj\<close> when \<open>key\<close> is not an own property:
  under the original prototype the members of \<^verbatim>\<open>Object.prototype\<close>; under an array as
  prototype the array's own properties, then \<^verbatim>\<open>Array.prototype\<close>, then \<^verbatim>\<open>Object.prototype\<close>.
  (The members of a built-in function that was made the prototype are not listed.)
\<close>

definition inheritedValue :: "bag \<Rightarrow> string \<Rightarrow> jsval option" where
  "inheritedValue obj key =
     (case obj ''__proto__'' of
        Some (VArr xs) \<Rightarrow>
          (case arrayOwn xs key of
             Some v \<Rightarrow> Some v
           | None \<Rightarrow>
               if key \<in> set arrayPrototypeKeys then Some (VArrayMember key)
               else objectMember key)
      | _ \<Rightarrow> objectMember key)"

text \<open>\<^verbatim>\<open>obj[key]\<close>; \<open>None\<close> is \<^verbatim>\<open>undefined\<close>. The getter of \<^verbatim>\<open>__proto__\<close> returns the prototype.\<close>

definition getProperty :: "bag \<Rightarrow> string \<Rightarrow> jsval option" where
  "getProperty obj key =
     (if key = ''__proto__'' then
        (case obj ''__proto__'' of
           Some p \<Rightarrow> Some p
         | None \<Rightarrow> Some (VInherited ''__proto__''))
      else (case obj key of
              Some v \<Rightarrow> Some v
            | None \<Rightarrow> inheritedValue obj key))"

text \<open>\<^verbatim>\<open>key in obj\<close>.\<close>

definition hasProperty :: "bag \<Rightarrow> string \<Rightarrow> bool" where
  "hasProperty obj key = (getProperty obj key \<noteq> None)"

text \<open>
  \<^verbatim>\<open>obj[key] = v\<close>: an own property is created or updated; for \<^verbatim>\<open>__proto__\<close> the setter
  replaces the prototype when \<open>v\<close> is an object and does nothing otherwise.
\<close>

definition setProperty :: "bag \<Rightarrow> string \<Rightarrow> jsval \<Rightarrow> bag" where
  "setProperty obj key v =
     (if key = ''__proto__'' then (if isObject v then obj(''__proto__'' \<mapsto> v) else obj)
      else obj(key \<mapsto> v))"

text \<open>\<^verbatim>\<open>delete obj[key]\<close> removes an own property; \<^verbatim>\<open>__proto__\<close> is never one.\<close>

definition deleteProperty :: "bag \<Rightarrow> string \<Rightarrow> bag" where
  "deleteProperty obj key = (if key = ''__proto__'' then obj else obj(key := None))"

text \<open>\<^verbatim>\<open>{ ...obj }\<close>: the own properties in a new object under \<^verbatim>\<open>Object.prototype\<close>.\<close>

definition spread :: "bag \<Rightarrow> bag" where
  "spread obj = obj(''__proto__'' := None)"

section \<open>Tokenizer\<close>

text \<open>
  \<^verbatim>\<open>addFlag\<close>. \<^verbatim>\<open>existing.push(value)\<close> extends the array in place, the own property at \<open>key\<close> or,
  for \<^verbatim>\<open>__proto__\<close>, the array that is the prototype (the tokenizer never inherits an
  array from anywhere else).
\<close>

definition addFlag :: "bag \<Rightarrow> string \<Rightarrow> jsval \<Rightarrow> bag" where
  "addFlag flags key v =
     (case getProperty flags key of
        Some existing \<Rightarrow>
          (case existing of
             VArr xs \<Rightarrow> flags(key \<mapsto> VArr (xs @ [v]))
           | _ \<Rightarrow> setProperty flags key (VArr [existing, v]))
      | None \<Rightarrow> setProperty flags key v)"

text \<open>
  The body of the \<^verbatim>\<open>for\<close> loop of \<^verbatim>\<open>parseFlags\<close> for the argument \<^verbatim>\<open>args[i]\<close>, with
  \<^verbatim>\<open>nextArg = args[i + 1]\<close> (\<open>None\<close> when \<^verbatim>\<open>undefined\<close>), the flag object and the positionals
  collected so far. The first component of the result tells whether the body did \<^verbatim>\<open>i++\<close>,
  that is, consumed the next argument as the value of the flag.
\<close>

definition parseArg ::
    "string \<Rightarrow> string option \<Rightarrow> bag \<Rightarrow> string list \<Rightarrow> bool \<times> bag \<times> string list" where
  "parseArg arg nextArg flags nonFlags =
     (if arg = [] then (False, flags, nonFlags)
      else if startsWith arg ''--'' then
        (let key = drop 2 arg in
         if CHR ''='' \<in> set key then
           (case split_str CHR ''='' key of
              flagName # valueParts \<Rightarrow>
                (if flagName \<noteq> [] then
                   (False, addFlag flags flagName (VStr (join_str ''='' valueParts)), nonFlags)
                 else (False, flags, nonFlags))
            | [] \<Rightarrow> (False, flags, nonFlags))
         else
           (case nextArg of
              Some n \<Rightarrow>
                (if n \<noteq> [] \<and> \<not> startsWith n ''-'' then
                   (True, addFlag flags key (VStr n), nonFlags)
                 else (False, addFlag flags key (VBool True), nonFlags))
            | None \<Rightarrow> (False, addFlag flags key (VBool True), nonFlags)))
      else if startsWith arg ''-'' \<and> length arg > 1 then
        (let key = drop 1 arg in
         if length key = 1 then
           (case nextArg of
              Some n \<Rightarrow>
                (if n \<noteq> [] \<and> \<not> startsWith n ''-'' then
                   (True, addFlag flags key (VStr n), nonFlags)
                 else (False, addFlag flags key (VBool True), nonFlags))
            | None \<Rightarrow> (False, addFlag flags key (VBool True), nonFlags))
         else
           (False, foldl (\<lambda>f c. addFlag f [c] (VBool True)) flags key, nonFlags))
      else (False, flags, nonFlags @ [arg]))"

text \<open>
  The loop itself, over the arguments from index \<open>i\<close> on: \<^verbatim>\<open>args[i + 1]\<close> is the head of the
  rest, and after an \<^verbatim>\<open>i++\<close> of the body the loop goes on behind it.
\<close>

function parseLoop :: "string list \<Rightarrow> bag \<Rightarrow> string list \<Rightarrow> bag \<times> string list" where
  "parseLoop [] flags nonFlags = (flags, nonFlags)"
| "parseLoop (arg # rest) flags nonFlags =
     (case parseArg arg (case rest of [] \<Rightarrow> None | n # ns \<Rightarrow> Some n) flags nonFlags of
        (consumed, flags', nonFlags') \<Rightarrow>
          parseLoop (if consumed then drop 1 rest else rest) flags' nonFlags')"
  by pat_completeness auto
termination
  by (relation "measure (\<lambda>(argv, flags, nonFlags). length argv)") auto

text \<open>
  \<^verbatim>\<open>return { ...flags, _: nonFlags }\<close>: the own properties of the flag object in a new
  object, with the positionals stored under the key \<^verbatim>\<open>_\<close>, replacing a flag of that name.
\<close>

definition parseFlags :: "string list \<Rightarrow> bag" where
  "parseFlags argv =
     (case parseLoop argv Map.empty [] of
        (flags, nonFlags) \<Rightarrow> (spread flags)(''_'' \<mapsto> VArr (map VStr nonFlags)))"

section \<open>Alias and naming resolution\<close>

text \<open>The body of the loop of \<^verbatim>\<open>resolveAliases\<close> for one entry of \<^verbatim>\<open>Object.entries(aliases)\<close>.\<close>

definition aliasStep :: "bag \<Rightarrow> string \<times> string \<Rightarrow> bag" where
  "aliasStep resolved entry =
     (case entry of
        (alias, target) \<Rightarrow>
          (case getProperty resolved alias of
             Some v \<Rightarrow> deleteProperty (setProperty resolved target v) alias
           | None \<Rightarrow> resolved))"

definition resolveAliases :: "bag \<Rightarrow> (string \<times> string) list option \<Rightarrow> bag" where
  "resolveAliases flags als =
     (case als of
        None \<Rightarrow> flags
      | Some entries \<Rightarrow> foldl aliasStep (spread flags) entries)"

text \<open>The body of the loop of \<^verbatim>\<open>resolveKebabCase\<close> for one key of \<^verbatim>\<open>Object.keys(schema.shape)\<close>.\<close>

definition kebabStep :: "bag \<Rightarrow> string \<Rightarrow> bag" where
  "kebabStep resolved camelKey =
     (if \<not> hasProperty resolved camelKey then
        (let kebabKey = camelToKebab camelKey in
         case getProperty resolved kebabKey of
           Some v \<Rightarrow> deleteProperty (setProperty resolved camelKey v) kebabKey
         | None \<Rightarrow> resolved)
      else resolved)"

definition resolveKebabCase :: "bag \<Rightarrow> zodObject \<Rightarrow> bag" where
  "resolveKebabCase flags sch = foldl kebabStep (spread flags) (map fst (shape sch))"

section \<open>Array normalization\<close>

text \<open>
  \<^verbatim>\<open>isZodArrayType\<close> unwraps \<^verbatim>\<open>ZodOptional\<close> and \<^verbatim>\<open>ZodDefault\<close> only; at any other type the
  loop stops and the type reached is tested for being a \<^verbatim>\<open>ZodArray\<close>.
\<close>

fun isZodArrayType :: "zodType \<Rightarrow> bool" where
  "isZodArrayType (ZodOptional t) = isZodArrayType t"
| "isZodArrayType (ZodDefault t) = isZodArrayType t"
| "isZodArrayType (ZodArray t) = True"
| "isZodArrayType t = False"

text \<open>The body of the loop of \<^verbatim>\<open>normalizeArrayFields\<close> for one entry of the shape.\<close>

definition normalizeStep :: "bag \<Rightarrow> string \<times> zodType \<Rightarrow> bag" where
  "normalizeStep normalized entry =
     (case entry of
        (key, zt) \<Rightarrow>
          (case getProperty normalized key of
             Some v \<Rightarrow>
               (if isZodArrayType zt \<and> \<not> isArray v then setProperty normalized key (VArr [v])
                else normalized)
           | None \<Rightarrow> normalized))"

definition normalizeArrayFields :: "bag \<Rightarrow> zodObject \<Rightarrow> bag" where
  "normalizeArrayFields opts sch = foldl normalizeStep (spread opts) (shape sch)"

section \<open>Validation and command resolution\<close>

text \<open>
  \<^verbatim>\<open>const { _, ...options } = resolvedKebab\<close> copies the own properties but \<^verbatim>\<open>_\<close> into a new
  object.
\<close>

definition validateOptions :: "bag \<Rightarrow> optionsDefinition option \<Rightarrow> error + bag" where
  "validateOptions flags optionsDef =
     (case optionsDef of
        None \<Rightarrow> Inr Map.empty
      | Some od \<Rightarrow>
          (let resolvedAliases = resolveAliases flags (aliases od);
               resolvedKebab = resolveKebabCase resolvedAliases (schema od);
               opts = (spread resolvedKebab)(''_'' := None);
               normalizedOptions = normalizeArrayFields opts (schema od)
           in parse (schema od) normalizedOptions))"

definition issueText :: "issue \<Rightarrow> string" where
  "issueText i = join_str ''.'' (path i) @ '': '' @ message i"

definition processCommandExecution ::
    "commandDefinition \<Rightarrow> bag \<Rightarrow> string list \<Rightarrow> error + processResult" where
  "processCommandExecution cmd parsedFlags argv =
     (case validateOptions parsedFlags (options cmd) of
        Inl e \<Rightarrow> Inl e
      | Inr opts \<Rightarrow>
          (case args cmd of
             None \<Rightarrow>
               Inr \<lparr>command = cmd, res_options = opts, res_args = VArr (map VStr argv)\<rparr>
           | Some argsSchema \<Rightarrow>
               (case argsSchema argv of
                  Inl (ZodError issues) \<Rightarrow>
                    Inl (Error (''Argument validation failed: ''
                                @ join_str '', '' (map issueText issues)))
                | Inl e \<Rightarrow> Inl e
                | Inr validatedArgs \<Rightarrow>
                    Inr \<lparr>command = cmd, res_options = opts, res_args = validatedArgs\<rparr>)))"

text \<open>\<^verbatim>\<open>parsedFlags._\<close>, the positional list carried by the flag object.\<close>

fun strings_of :: "jsval list \<Rightarrow> string list" where
  "strings_of [] = []"
| "strings_of (VStr s # vs) = s # strings_of vs"
| "strings_of (v # vs) = strings_of vs"

definition positionals :: "bag \<Rightarrow> string list" where
  "positionals parsedFlags =
     (case parsedFlags ''_'' of
        Some (VArr vs) \<Rightarrow> strings_of vs
      | _ \<Rightarrow> [])"

definition finish :: "error + processResult \<Rightarrow> screen list \<times> outcome" where
  "finish r = (case r of Inl e \<Rightarrow> ([], Throw e) | Inr res \<Rightarrow> ([], Return res))"

text \<open>
  \<^verbatim>\<open>processConfig\<close>. \<^verbatim>\<open>config.commands[commandName]\<close> finds a registered command or, for a
  name that is none, the member of \<^verbatim>\<open>Object.prototype\<close> of that name. Such a member is truthy
  and has neither \<^verbatim>\<open>options\<close> nor \<^verbatim>\<open>args\<close>: with \<^verbatim>\<open>help === true\<close> its help is printed, otherwise
  \<^verbatim>\<open>processCommandExecution\<close> returns it as the command, with the options \<^verbatim>\<open>{}\<close> and the
  remaining positionals.
\<close>

definition processConfig :: "defineConfig \<Rightarrow> string list \<Rightarrow> screen list \<times> outcome" where
  "processConfig config argv =
     (let parsedFlags = parseFlags argv;
          commandArgs = positionals parsedFlags
      in case commandArgs of
           [] \<Rightarrow>
             (if parsedFlags ''help'' = Some (VBool True) then ([DisplayHelp], Exit 0)
              else (case defaultCommand config of
                      Some dc \<Rightarrow> finish (processCommandExecution dc parsedFlags commandArgs)
                    | None \<Rightarrow> ([DisplayHelp], Throw (Error ''No command specified.''))))
         | commandName # remainingArgs \<Rightarrow>
             (if commandName = [] then
                (if parsedFlags ''help'' = Some (VBool True) then ([DisplayHelp], Exit 0)
                 else (case defaultCommand config of
                         Some dc \<Rightarrow> finish (processCommandExecution dc parsedFlags commandArgs)
                       | None \<Rightarrow> ([DisplayHelp], Throw (Error ''No command specified.''))))
              else
                (case commands config commandName of
                   None \<Rightarrow>
                     (if commandName \<in> set objectPrototypeKeys then
                        (if parsedFlags ''help'' = Some (VBool True)
                         then ([DisplayCommandHelp commandName], Exit 0)
                         else ([], ReturnInherited commandName (VArr (map VStr remainingArgs))))
                      else
                        ([DisplayHelp], Throw (Error (''Unknown command: '' @ cyan commandName))))
                 | Some cmd \<Rightarrow>
                     (if parsedFlags ''help'' = Some (VBool True)
                      then ([DisplayCommandHelp commandName], Exit 0)
                      else finish (processCommandExecution cmd parsedFlags remainingArgs)))))"

section \<open>Configurations of the test suite\<close>

text \<open>
  The configurations that \<^verbatim>\<open>index.test.ts\<close> builds with \<^verbatim>\<open>defineCommand\<close>, \<^verbatim>\<open>defineOptions\<close> and
  \<^verbatim>\<open>defineConfig\<close>; the validator of a schema stays a parameter.
\<close>

text \<open>\<^verbatim>\<open>defineCommand({ action })\<close>: a command with neither options nor an args schema.\<close>

definition plainCommand :: commandDefinition where
  "plainCommand = \<lparr>description = None, options = None, args = None\<rparr>"

definition plainConfig :: defineConfig where
  "plainConfig = \<lparr>commands = [''test'' \<mapsto> plainCommand], defaultCommand = None\<rparr>"

text \<open>The default command of the tests, registered as \<^verbatim>\<open>greet\<close> as well.\<close>

definition greetCommand :: commandDefinition where
  "greetCommand = \<lparr>description = Some ''Default command'', options = None, args = None\<rparr>"

definition greetConfig :: defineConfig where
  "greetConfig = \<lparr>commands = [''greet'' \<mapsto> greetCommand], defaultCommand = Some greetCommand\<rparr>"

text \<open>\<^verbatim>\<open>z.object({ verbose: z.boolean().default(false) })\<close> with the validator \<open>p\<close>.\<close>

definition verboseCommand :: "(bag \<Rightarrow> error + bag) \<Rightarrow> commandDefinition" where
  "verboseCommand p =
     \<lparr>description = None,
      options = Some \<lparr>schema = \<lparr>shape = [(''verbose'', ZodDefault ZodBoolean)], parse = p\<rparr>,
                      aliases = None\<rparr>,
      args = None\<rparr>"

definition verboseConfig :: "(bag \<Rightarrow> error + bag) \<Rightarrow> defineConfig" where
  "verboseConfig p = \<lparr>commands = [''test'' \<mapsto> verboseCommand p], defaultCommand = None\<rparr>"

text \<open>\<^verbatim>\<open>z.object({ name: z.string() })\<close> with the validator \<open>p\<close>.\<close>

definition nameCommand :: "(bag \<Rightarrow> error + bag) \<Rightarrow> commandDefinition" where
  "nameCommand p =
     \<lparr>description = None,
      options = Some \<lparr>schema = \<lparr>shape = [(''name'', ZodString)], parse = p\<rparr>, aliases = None\<rparr>,
      args = None\<rparr>"

definition nameConfig :: "(bag \<Rightarrow> error + bag) \<Rightarrow> defineConfig" where
  "nameConfig p = \<lparr>commands = [''test'' \<mapsto> nameCommand p], defaultCommand = None\<rparr>"

text \<open>A command with an args schema only, with the validator \<open>q\<close>.\<close>

definition argsCommand :: "(string list \<Rightarrow> error + jsval) \<Rightarrow> commandDefinition" where
  "argsCommand q = \<lparr>description = None, options = None, args = Some q\<rparr>"

definition argsConfig :: "(string list \<Rightarrow> error + jsval) \<Rightarrow> defineConfig" where
  "argsConfig q = \<lparr>commands = [''test'' \<mapsto> argsCommand q], defaultCommand = None\<rparr>"

text \<open>
  A list of field names is unambiguous when different fields have different hyphenated
  spellings and the hyphenated spelling of a field is not the name of another field.
\<close>

definition unambiguous :: "string list \<Rightarrow> bool" where
  "unambiguous cs =
     (\<forall>c \<in> set cs. \<forall>c' \<in> set cs.
        c \<noteq> c' \<longrightarrow> camelToKebab c \<noteq> camelToKebab c' \<and> camelToKebab c \<noteq> c')"

text \<open>
  \<^verbatim>\<open>z.object({ constructor: z.array(z.string()).optional() })\<close> with the validator \<open>p\<close>: an
  array-typed field that bears the name of a member of \<^verbatim>\<open>Object.prototype\<close>.
\<close>

definition constructorOptions :: "(bag \<Rightarrow> error + bag) \<Rightarrow> optionsDefinition" where
  "constructorOptions p =
     \<lparr>schema = \<lparr>shape = [(''constructor'', ZodOptional (ZodArray ZodString))], parse = p\<rparr>,
      aliases = None\<rparr>"

section \<open>Evaluation and plain objects\<close>

lemmas ev =
  parseFlags_def parseArg_def startsWith_def addFlag_def getProperty_def hasProperty_def
  setProperty_def deleteProperty_def spread_def inheritedValue_def objectMember_def
  objectPrototypeKeys_def Let_def

lemma proto_is_inherited: "''__proto__'' \<in> set objectPrototypeKeys"
  by (simp add: objectPrototypeKeys_def)

lemma getProperty_plain:
  "obj ''__proto__'' = None \<Longrightarrow> key \<notin> set objectPrototypeKeys \<Longrightarrow> getProperty obj key = obj key"
  using proto_is_inherited
  by (auto simp: getProperty_def inheritedValue_def objectMember_def split: option.splits)

lemma hasProperty_plain:
  "obj ''__proto__'' = None \<Longrightarrow> key \<notin> set objectPrototypeKeys \<Longrightarrow>
   hasProperty obj key = (obj key \<noteq> None)"
  by (simp add: hasProperty_def getProperty_plain)

lemma getProperty_own:
  "key \<noteq> ''__proto__'' \<Longrightarrow> obj key = Some v \<Longrightarrow> getProperty obj key = Some v"
  by (simp add: getProperty_def)

section \<open>The tokenizer: repeated flags and the equals form\<close>

lemma addFlag_other: "k \<noteq> key \<Longrightarrow> addFlag flags key v k = flags k"
  by (auto simp: addFlag_def setProperty_def split: option.splits jsval.splits)

lemma addFlag_fresh: "\<not> hasProperty flags key \<Longrightarrow> addFlag flags key v key = Some v"
  using proto_is_inherited
  by (cases "key = ''__proto__''")
     (auto simp: addFlag_def hasProperty_def setProperty_def getProperty_def
        inheritedValue_def objectMember_def split: option.splits)

lemma addFlag_scalar:
  "key \<noteq> ''__proto__'' \<Longrightarrow> flags key = Some e \<Longrightarrow> \<not> isArray e \<Longrightarrow>
   addFlag flags key v key = Some (VArr [e, v])"
  by (cases e) (simp_all add: addFlag_def getProperty_own setProperty_def)

lemma addFlag_array:
  "key \<noteq> ''__proto__'' \<Longrightarrow> flags key = Some (VArr xs) \<Longrightarrow>
   addFlag flags key v key = Some (VArr (xs @ [v]))"
  by (simp add: addFlag_def getProperty_own)

text \<open>
  Claim C4 says that the first occurrence of every flag key stores the raw value. The code
  tests \<^verbatim>\<open>key in flags\<close>, which is true for a name that the flag object inherits from
  \<^verbatim>\<open>Object.prototype\<close>: the first occurrence of \<^verbatim>\<open>--toString x\<close> finds the inherited function
  as the existing value and stores the two-element array of that function and \<^verbatim>\<open>'x'\<close>. For
  the key \<^verbatim>\<open>files\<close>, which is not inherited, one, two and three occurrences give the raw
  value, the array of the two values and the array of the three values:
  \<^verbatim>\<open>['--files','a.txt','--files','b.txt']\<close> gives \<^verbatim>\<open>files = ['a.txt','b.txt']\<close>.
\<close>

theorem C4_inherited_key_not_stored_raw:
  "addFlag Map.empty ''toString'' (VStr ''x'') ''toString''
     = Some (VArr [VInherited ''toString'', VStr ''x''])
   \<and> parseFlags [''--toString'', ''x''] ''toString''
     = Some (VArr [VInherited ''toString'', VStr ''x''])
   \<and> parseFlags [''--files'', ''a.txt''] ''files'' = Some (VStr ''a.txt'')
   \<and> parseFlags [''--files'', ''a.txt'', ''--files'', ''b.txt''] ''files''
     = Some (VArr [VStr ''a.txt'', VStr ''b.txt''])
   \<and> parseFlags [''--files'', ''a.txt'', ''--files'', ''b.txt'', ''--files'', ''c.txt''] ''files''
     = Some (VArr [VStr ''a.txt'', VStr ''b.txt'', VStr ''c.txt''])"
  by (simp add: ev)

lemma split_str_first:
  "sep \<notin> set k \<Longrightarrow> split_str sep (k @ sep # v) = k # split_str sep v"
  by (induction k) auto

lemma split_str_nonempty: "split_str sep s \<noteq> []"
  by (induction s) (simp_all split: list.splits)

lemma join_split: "join_str [sep] (split_str sep s) = s"
proof (induction s)
  case Nil
  then show ?case by simp
next
  case (Cons c cs)
  show ?case
  proof (cases "split_str sep cs")
    case Nil
    then show ?thesis using split_str_nonempty by blast
  next
    case (Cons p ps)
    then show ?thesis using Cons.IH by (cases ps) auto
  qed
qed

text \<open>
  Claim C5. A long flag \<^verbatim>\<open>--k=v\<close>, where \<open>k\<close> is the text up to the first \<^verbatim>\<open>=\<close> (so \<open>k\<close>
  holds no \<^verbatim>\<open>=\<close>) and \<open>v\<close> is everything after it, further \<^verbatim>\<open>=\<close> included, registers
  the key \<open>k\<close> with the string value \<open>v\<close> and consumes no other token; with an empty \<open>k\<close>
  the token registers nothing. \<^verbatim>\<open>--key=value=with=equals\<close> gives the key \<^verbatim>\<open>key\<close> the value
  \<^verbatim>\<open>value=with=equals\<close>.
\<close>

theorem C5_split_at_first_equals:
  "(CHR ''='' \<notin> set k \<longrightarrow>
      split_str CHR ''='' (k @ ''='' @ v) = k # split_str CHR ''='' v
      \<and> join_str ''='' (split_str CHR ''='' v) = v
      \<and> parseLoop ((''--'' @ k @ ''='' @ v) # rest) flags nonFlags =
          (if k = [] then parseLoop rest flags nonFlags
           else parseLoop rest (addFlag flags k (VStr v)) nonFlags))
   \<and> parseFlags [''--key=value=with=equals''] ''key'' = Some (VStr ''value=with=equals'')"
proof (intro conjI impI)
  assume k: "CHR ''='' \<notin> set k"
  show s: "split_str CHR ''='' (k @ ''='' @ v) = k # split_str CHR ''='' v"
    using split_str_first [OF k] by simp
  show j: "join_str ''='' (split_str CHR ''='' v) = v"
    by (rule join_split)
  show "parseLoop ((''--'' @ k @ ''='' @ v) # rest) flags nonFlags =
        (if k = [] then parseLoop rest flags nonFlags
         else parseLoop rest (addFlag flags k (VStr v)) nonFlags)"
    using s j by (simp add: parseArg_def startsWith_def)
next
  show "parseFlags [''--key=value=with=equals''] ''key'' = Some (VStr ''value=with=equals'')"
    by (simp add: ev)
qed

theorem C5_split_at_first_equals_witness:
  "CHR ''='' \<notin> set ''env''
   \<and> split_str CHR ''='' ''env=NODE_ENV=production'' = ''env'' # split_str CHR ''='' ''NODE_ENV=production''
   \<and> parseLoop [''--env=NODE_ENV=production''] Map.empty [] =
       parseLoop [] (addFlag Map.empty ''env'' (VStr ''NODE_ENV=production'')) []"
  using C5_split_at_first_equals [of "''env''" "''NODE_ENV=production''" "[]" Map.empty "[]"]
  by simp

section \<open>The tokenizer: short flags and the lookahead\<close>

text \<open>
  Claim C6, as stated, fails: it lets a short flag take the next token as its value whenever
  that token exists and has no leading dash. The code also wants the token to be non-empty
  (\<^verbatim>\<open>nextArg && ...\<close>): in \<^verbatim>\<open>['-a', '']\<close> the next token exists and does not begin with a
  dash, and the flag \<^verbatim>\<open>a\<close> is the boolean \<^verbatim>\<open>true\<close>, not the empty string.
\<close>

theorem C6_empty_next_token_counterexample:
  "\<not> startsWith [] ''-''
   \<and> parseFlags [''-a'', []] ''a'' = Some (VBool True)
   \<and> parseFlags [''-a'', []] ''a'' \<noteq> Some (VStr [])"
  by (simp add: ev)

text \<open>
  Claim C6, amended. A token of one dash followed by two characters or more (the first of
  them not a dash) registers each of these characters as a flag of its own with the value
  \<^verbatim>\<open>true\<close>, and the loop goes on with the very next token. A token of one dash and one
  character takes the next token as its string value iff that token exists, is not empty
  and does not begin with a dash; otherwise the flag is \<^verbatim>\<open>true\<close> and the next token is
  processed on its own. A long flag without \<^verbatim>\<open>=\<close> follows the same rule.
\<close>

theorem C6_short_flags:
  "(2 \<le> length key \<and> hd key \<noteq> CHR ''-'' \<longrightarrow>
      parseLoop ((CHR ''-'' # key) # rest) flags nonFlags
        = parseLoop rest (foldl (\<lambda>f c. addFlag f [c] (VBool True)) flags key) nonFlags)
   \<and> (c \<noteq> CHR ''-'' \<longrightarrow>
      parseLoop ([CHR ''-'', c] # rest) flags nonFlags
        = (if rest \<noteq> [] \<and> hd rest \<noteq> [] \<and> \<not> startsWith (hd rest) ''-''
           then parseLoop (tl rest) (addFlag flags [c] (VStr (hd rest))) nonFlags
           else parseLoop rest (addFlag flags [c] (VBool True)) nonFlags))
   \<and> (CHR ''='' \<notin> set long \<longrightarrow>
      parseLoop ((''--'' @ long) # rest) flags nonFlags
        = (if rest \<noteq> [] \<and> hd rest \<noteq> [] \<and> \<not> startsWith (hd rest) ''-''
           then parseLoop (tl rest) (addFlag flags long (VStr (hd rest))) nonFlags
           else parseLoop rest (addFlag flags long (VBool True)) nonFlags))"
proof (intro conjI impI)
  assume "2 \<le> length key \<and> hd key \<noteq> CHR ''-''"
  then obtain a b ks where key: "key = a # b # ks" and a: "a \<noteq> CHR ''-''"
    by (cases key; cases "tl key") auto
  show "parseLoop ((CHR ''-'' # key) # rest) flags nonFlags
        = parseLoop rest (foldl (\<lambda>f c. addFlag f [c] (VBool True)) flags key) nonFlags"
    using a by (simp add: key parseArg_def startsWith_def)
next
  assume c: "c \<noteq> CHR ''-''"
  show "parseLoop ([CHR ''-'', c] # rest) flags nonFlags
        = (if rest \<noteq> [] \<and> hd rest \<noteq> [] \<and> \<not> startsWith (hd rest) ''-''
           then parseLoop (tl rest) (addFlag flags [c] (VStr (hd rest))) nonFlags
           else parseLoop rest (addFlag flags [c] (VBool True)) nonFlags)"
    apply (subst parseLoop.simps(2))
    using c by (cases rest) (simp_all del: parseLoop.simps add: parseArg_def startsWith_def)
next
  assume l: "CHR ''='' \<notin> set long"
  show "parseLoop ((''--'' @ long) # rest) flags nonFlags
        = (if rest \<noteq> [] \<and> hd rest \<noteq> [] \<and> \<not> startsWith (hd rest) ''-''
           then parseLoop (tl rest) (addFlag flags long (VStr (hd rest))) nonFlags
           else parseLoop rest (addFlag flags long (VBool True)) nonFlags)"
    apply (subst parseLoop.simps(2))
    using l by (cases rest) (simp_all del: parseLoop.simps add: parseArg_def startsWith_def)
qed

theorem C6_short_flags_witness:
  "parseLoop [''-abc'', ''x''] Map.empty []
     = parseLoop [''x''] (foldl (\<lambda>f c. addFlag f [c] (VBool True)) Map.empty ''abc'') []
   \<and> parseLoop [''-n'', ''x'', ''y''] Map.empty []
     = parseLoop [''y''] (addFlag Map.empty ''n'' (VStr ''x'')) []
   \<and> parseLoop [''-n'', ''-x''] Map.empty []
     = parseLoop [''-x''] (addFlag Map.empty ''n'' (VBool True)) []
   \<and> parseLoop [''-n'', [], ''y''] Map.empty []
     = parseLoop [[], ''y''] (addFlag Map.empty ''n'' (VBool True)) []
   \<and> parseLoop [''--name'', ''x'', ''y''] Map.empty []
     = parseLoop [''y''] (addFlag Map.empty ''name'' (VStr ''x'')) []"
proof -
  note c6 = C6_short_flags
  have cluster: "2 \<le> length ''abc'' \<and> hd ''abc'' \<noteq> CHR ''-''" by simp
  have single: "CHR ''n'' \<noteq> CHR ''-''" by simp
  have long: "CHR ''='' \<notin> set ''name''" by simp
  have "parseLoop [''-abc'', ''x''] Map.empty []
     = parseLoop [''x''] (foldl (\<lambda>f c. addFlag f [c] (VBool True)) Map.empty ''abc'') []"
    using c6 [of "''abc''" "[''x'']" Map.empty "[]"] cluster by blast
  moreover have "parseLoop [''-n'', ''x'', ''y''] Map.empty []
     = parseLoop [''y''] (addFlag Map.empty ''n'' (VStr ''x'')) []"
    using c6 [of _ "[''x'', ''y'']" Map.empty "[]" "CHR ''n''"] single
    by (simp del: parseLoop.simps add: startsWith_def)
  moreover have "parseLoop [''-n'', ''-x''] Map.empty []
     = parseLoop [''-x''] (addFlag Map.empty ''n'' (VBool True)) []"
    using c6 [of _ "[''-x'']" Map.empty "[]" "CHR ''n''"] single
    by (simp del: parseLoop.simps add: startsWith_def)
  moreover have "parseLoop [''-n'', [], ''y''] Map.empty []
     = parseLoop [[], ''y''] (addFlag Map.empty ''n'' (VBool True)) []"
    using c6 [of _ "[[], ''y'']" Map.empty "[]" "CHR ''n''"] single
    by (simp del: parseLoop.simps add: startsWith_def)
  moreover have "parseLoop [''--name'', ''x'', ''y''] Map.empty []
     = parseLoop [''y''] (addFlag Map.empty ''name'' (VStr ''x'')) []"
    using c6 [of _ "[''x'', ''y'']" Map.empty "[]" _ "''name''"] long
    by (simp del: parseLoop.simps add: startsWith_def)
  ultimately show ?thesis by blast
qed

section \<open>Invariants of the tokenizer loop\<close>

lemma cluster_invariant:
  assumes add: "\<And>f k v. P f \<Longrightarrow> P (addFlag f k v)"
  shows "P f \<Longrightarrow> P (foldl (\<lambda>f c. addFlag f [c] (VBool True)) f cs)"
  by (induction cs arbitrary: f) (simp_all add: add)

lemma parseArg_flags_invariant:
  assumes add: "\<And>f k v. P f \<Longrightarrow> P (addFlag f k v)"
      and P: "P flags"
  shows "P (fst (snd (parseArg arg nextArg flags nonFlags)))"
  using P by (auto simp: parseArg_def Let_def add cluster_invariant [of P, OF add]
                   split: list.splits option.splits)

lemma parseLoop_flags_invariant:
  assumes add: "\<And>f k v. P f \<Longrightarrow> P (addFlag f k v)"
  shows "P flags \<Longrightarrow> P (fst (parseLoop argv flags nonFlags))"
proof (induction argv flags nonFlags rule: parseLoop.induct)
  case (1 flags nonFlags)
  then show ?case by simp
next
  case (2 arg rest flags nonFlags)
  obtain consumed flags' nonFlags'
    where step: "parseArg arg (case rest of [] \<Rightarrow> None | n # ns \<Rightarrow> Some n) flags nonFlags
                   = (consumed, flags', nonFlags')"
    by (metis prod_cases3)
  have "P flags'"
    using parseArg_flags_invariant
            [of P flags arg "case rest of [] \<Rightarrow> None | n # ns \<Rightarrow> Some n" nonFlags,
             OF add "2.prems"] step
    by simp
  then have "P (fst (parseLoop (if consumed then drop 1 rest else rest) flags' nonFlags'))"
    using "2.IH" [OF step [symmetric] refl] by simp
  then show ?case using step by simp
qed

lemma parseArg_nonFlags:
  "[] \<notin> set nonFlags \<Longrightarrow> [] \<notin> set (snd (snd (parseArg arg nextArg flags nonFlags)))"
  by (auto simp: parseArg_def Let_def split: list.splits option.splits)

lemma parseLoop_nonFlags_nonempty:
  "[] \<notin> set nonFlags \<Longrightarrow> [] \<notin> set (snd (parseLoop argv flags nonFlags))"
proof (induction argv flags nonFlags rule: parseLoop.induct)
  case (1 flags nonFlags)
  then show ?case by simp
next
  case (2 arg rest flags nonFlags)
  obtain consumed flags' nonFlags'
    where step: "parseArg arg (case rest of [] \<Rightarrow> None | n # ns \<Rightarrow> Some n) flags nonFlags
                   = (consumed, flags', nonFlags')"
    by (metis prod_cases3)
  have "[] \<notin> set nonFlags'"
    using parseArg_nonFlags
            [OF "2.prems", of arg "case rest of [] \<Rightarrow> None | n # ns \<Rightarrow> Some n" flags] step
    by simp
  then have "[] \<notin> set (snd (parseLoop (if consumed then drop 1 rest else rest) flags' nonFlags'))"
    using "2.IH" [OF step [symmetric] refl] by simp
  then show ?case using step by simp
qed

lemma strings_of_VStr: "strings_of (map VStr xs) = xs"
  by (induction xs) simp_all

lemma positionals_parseFlags:
  "positionals (parseFlags argv) = snd (parseLoop argv Map.empty [])"
  by (simp add: positionals_def parseFlags_def spread_def strings_of_VStr split: prod.splits)

lemma positionals_nonempty: "[] \<notin> set (positionals (parseFlags argv))"
  by (simp add: positionals_parseFlags parseLoop_nonFlags_nonempty)

section \<open>Command resolution\<close>

text \<open>
  Claim C3, as stated, fails in its last branch: a first positional that names a registered
  command does not always route to that command. For \<^verbatim>\<open>['test', '--help']\<close> with \<^verbatim>\<open>test\<close>
  registered, the help of the command is printed and the process exits with status 0;
  the command is not processed.
\<close>

theorem C3_help_at_named_command_counterexample:
  "positionals (parseFlags [''test'', ''--help'']) = [''test'']
   \<and> commands plainConfig ''test'' = Some plainCommand
   \<and> processConfig plainConfig [''test'', ''--help''] = ([DisplayCommandHelp ''test''], Exit 0)
   \<and> processConfig plainConfig [''test'', ''--help'']
       \<noteq> finish (processCommandExecution plainCommand (parseFlags [''test'', ''--help'']) [])"
  by (simp add: processConfig_def plainConfig_def plainCommand_def positionals_def finish_def
        processCommandExecution_def validateOptions_def ev)

text \<open>
  Claim C3, amended. With \<open>pos\<close> the positional list of the tokenizer:
  \<^item> \<open>pos\<close> empty and \<^verbatim>\<open>help === true\<close>: the top-level help is printed and the process exits
    with status 0, whether or not a default command is configured;
  \<^item> \<open>pos\<close> empty, no help, a default command: the default command is processed with the
    whole (empty) positional list;
  \<^item> \<open>pos\<close> empty, no help, no default command: the top-level help is printed and
    \<^verbatim>\<open>No command specified.\<close> is thrown;
  \<^item> the first positional is neither a key of \<^verbatim>\<open>commands\<close> nor the name of a member of
    \<^verbatim>\<open>Object.prototype\<close>: the top-level help is printed and \<^verbatim>\<open>Unknown command: <token>\<close> is
    thrown, whether or not a default command is configured;
  \<^item> the first positional is a key of \<^verbatim>\<open>commands\<close>: with \<^verbatim>\<open>help === true\<close> the help of that
    command is printed and the process exits with status 0, otherwise that command is
    processed with the remaining positionals.
\<close>

theorem C3_command_resolution:
  "(positionals (parseFlags argv) = [] \<and> parseFlags argv ''help'' = Some (VBool True) \<longrightarrow>
      processConfig config argv = ([DisplayHelp], Exit 0))
   \<and> (positionals (parseFlags argv) = [] \<and> parseFlags argv ''help'' \<noteq> Some (VBool True)
        \<and> defaultCommand config = Some dc \<longrightarrow>
      processConfig config argv
        = finish (processCommandExecution dc (parseFlags argv) (positionals (parseFlags argv))))
   \<and> (positionals (parseFlags argv) = [] \<and> parseFlags argv ''help'' \<noteq> Some (VBool True)
        \<and> defaultCommand config = None \<longrightarrow>
      processConfig config argv = ([DisplayHelp], Throw (Error ''No command specified.'')))
   \<and> (positionals (parseFlags argv) = name # rest \<and> commands config name = None
        \<and> name \<notin> set objectPrototypeKeys \<longrightarrow>
      processConfig config argv
        = ([DisplayHelp], Throw (Error (''Unknown command: '' @ cyan name))))
   \<and> (positionals (parseFlags argv) = name # rest \<and> commands config name = Some cmd \<longrightarrow>
      processConfig config argv
        = (if parseFlags argv ''help'' = Some (VBool True)
           then ([DisplayCommandHelp name], Exit 0)
           else finish (processCommandExecution cmd (parseFlags argv) rest)))"
proof -
  have ne: "positionals (parseFlags argv) = name # rest \<Longrightarrow> name \<noteq> []"
    using positionals_nonempty [of argv] by auto
  show ?thesis
    using ne by (auto simp: processConfig_def Let_def)
qed

theorem C3_command_resolution_witness:
  "processConfig greetConfig [''--help''] = ([DisplayHelp], Exit 0)
   \<and> processConfig greetConfig [''--name'', ''Alice'']
       = ([], Return \<lparr>command = greetCommand, res_options = Map.empty, res_args = VArr []\<rparr>)
   \<and> processConfig plainConfig [] = ([DisplayHelp], Throw (Error ''No command specified.''))
   \<and> processConfig greetConfig [''unknown'']
       = ([DisplayHelp], Throw (Error (''Unknown command: '' @ cyan ''unknown'')))
   \<and> processConfig plainConfig [''test'', ''a'', ''b'']
       = ([], Return \<lparr>command = plainCommand, res_options = Map.empty,
                       res_args = VArr [VStr ''a'', VStr ''b'']\<rparr>)"
proof -
  note c3 = C3_command_resolution
  note ev = positionals_def ev
  have h1: "positionals (parseFlags [''--help'']) = []
            \<and> parseFlags [''--help''] ''help'' = Some (VBool True)"
    by (simp add: ev)
  have h2: "positionals (parseFlags [''--name'', ''Alice'']) = []
            \<and> parseFlags [''--name'', ''Alice''] ''help'' \<noteq> Some (VBool True)
            \<and> defaultCommand greetConfig = Some greetCommand"
    by (simp add: ev greetConfig_def)
  have h3: "positionals (parseFlags []) = [] \<and> parseFlags [] ''help'' \<noteq> Some (VBool True)
            \<and> defaultCommand plainConfig = None"
    by (simp add: ev plainConfig_def)
  have h4: "positionals (parseFlags [''unknown'']) = ''unknown'' # []
            \<and> commands greetConfig ''unknown'' = None
            \<and> ''unknown'' \<notin> set objectPrototypeKeys"
    by (simp add: ev greetConfig_def)
  have h5: "positionals (parseFlags [''test'', ''a'', ''b'']) = ''test'' # [''a'', ''b'']
            \<and> commands plainConfig ''test'' = Some plainCommand"
    by (simp add: ev plainConfig_def)
  have n5: "parseFlags [''test'', ''a'', ''b''] ''help'' \<noteq> Some (VBool True)"
    by (simp add: ev)
  have r2: "finish (processCommandExecution greetCommand (parseFlags [''--name'', ''Alice''])
                      (positionals (parseFlags [''--name'', ''Alice''])))
            = ([], Return \<lparr>command = greetCommand, res_options = Map.empty, res_args = VArr []\<rparr>)"
    using h2 by (simp add: finish_def processCommandExecution_def validateOptions_def greetCommand_def)
  have r5: "finish (processCommandExecution plainCommand (parseFlags [''test'', ''a'', ''b''])
                      [''a'', ''b''])
            = ([], Return \<lparr>command = plainCommand, res_options = Map.empty,
                            res_args = VArr [VStr ''a'', VStr ''b'']\<rparr>)"
    by (simp add: finish_def processCommandExecution_def validateOptions_def plainCommand_def)
  have "processConfig greetConfig [''--help''] = ([DisplayHelp], Exit 0)"
    using c3 [of "[''--help'']" greetConfig] h1 by blast
  moreover have "processConfig greetConfig [''--name'', ''Alice'']
       = ([], Return \<lparr>command = greetCommand, res_options = Map.empty, res_args = VArr []\<rparr>)"
    using c3 [of "[''--name'', ''Alice'']" greetConfig greetCommand] h2 r2 by simp
  moreover have "processConfig plainConfig [] = ([DisplayHelp], Throw (Error ''No command specified.''))"
    using c3 [of "[]" plainConfig] h3 by blast
  moreover have "processConfig greetConfig [''unknown'']
       = ([DisplayHelp], Throw (Error (''Unknown command: '' @ cyan ''unknown'')))"
    using c3 [of "[''unknown'']" greetConfig _ "''unknown''" "[]"] h4 by blast
  moreover have "processConfig plainConfig [''test'', ''a'', ''b'']
       = ([], Return \<lparr>command = plainCommand, res_options = Map.empty,
                       res_args = VArr [VStr ''a'', VStr ''b'']\<rparr>)"
    using c3 [of "[''test'', ''a'', ''b'']" plainConfig _ "''test''" "[''a'', ''b'']" plainCommand]
      h5 n5 r5
    by simp
  ultimately show ?thesis by blast
qed

section \<open>Commands without an options definition\<close>

text \<open>
  Claim C9. For a command without an options definition \<^verbatim>\<open>validateOptions\<close> returns the empty
  object whatever the flags are: the outcome of processing such a command does not depend
  on the flags at all, a result always carries the options \<^verbatim>\<open>{}\<close>, and without an args schema
  the processing cannot fail.
\<close>

theorem C9_no_options_definition:
  "validateOptions flags None = Inr Map.empty
   \<and> (options cmd = None \<longrightarrow>
        processCommandExecution cmd flags argv = processCommandExecution cmd flags' argv
        \<and> (\<forall>r. processCommandExecution cmd flags argv = Inr r \<longrightarrow> res_options r = Map.empty)
        \<and> (args cmd = None \<longrightarrow>
             processCommandExecution cmd flags argv
               = Inr \<lparr>command = cmd, res_options = Map.empty, res_args = VArr (map VStr argv)\<rparr>))"
  by (auto simp: validateOptions_def processCommandExecution_def
           split: option.splits sum.splits error.splits)

theorem C9_no_options_definition_witness:
  "options plainCommand = None \<and> args plainCommand = None
   \<and> processCommandExecution plainCommand (parseFlags [''test'', ''--unknown'', ''-x'']) []
       = processCommandExecution plainCommand Map.empty []
   \<and> processCommandExecution plainCommand (parseFlags [''test'', ''--unknown'', ''-x'']) []
       = Inr \<lparr>command = plainCommand, res_options = Map.empty, res_args = VArr (map VStr [])\<rparr>"
proof -
  have h: "options plainCommand = None" "args plainCommand = None"
    by (simp_all add: plainCommand_def)
  show ?thesis
    using C9_no_options_definition
            [of "parseFlags [''test'', ''--unknown'', ''-x'']" plainCommand "[]" Map.empty] h
    by blast
qed

section \<open>The help short-circuit\<close>

lemma parseArg_consumed:
  "fst (parseArg arg nextArg flags nonFlags) \<Longrightarrow>
   \<exists>n. nextArg = Some n \<and> n \<noteq> [] \<and> \<not> startsWith n ''-''"
  by (auto simp: parseArg_def Let_def split: list.splits option.splits if_splits)

lemma parseLoop_prefix:
  assumes add: "\<And>f k v. P f \<Longrightarrow> P (addFlag f k v)"
      and dash: "startsWith t ''-''"
  shows "P flags \<Longrightarrow>
         \<exists>flags' nonFlags'. parseLoop (pre @ t # suf) flags nonFlags
                               = parseLoop (t # suf) flags' nonFlags' \<and> P flags'"
proof (induction pre arbitrary: flags nonFlags rule: length_induct)
  case (1 pre)
  show ?case
  proof (cases pre)
    case Nil
    then show ?thesis using "1.prems" by auto
  next
    case (Cons arg rest)
    define nextArg where "nextArg = (case rest @ t # suf of [] \<Rightarrow> None | n # ns \<Rightarrow> Some n)"
    obtain consumed f1 nf1 where step: "parseArg arg nextArg flags nonFlags = (consumed, f1, nf1)"
      by (metis prod_cases3)
    have P1: "P f1"
      using parseArg_flags_invariant [of P flags arg nextArg nonFlags, OF add "1.prems"] step
      by simp
    have unfold: "parseLoop (pre @ t # suf) flags nonFlags
                  = parseLoop (if consumed then drop 1 (rest @ t # suf) else rest @ t # suf) f1 nf1"
      using step by (simp add: Cons nextArg_def)
    show ?thesis
    proof (cases consumed)
      case False
      have "length rest < length pre" using Cons by simp
      then obtain f' nf' where "parseLoop (rest @ t # suf) f1 nf1 = parseLoop (t # suf) f' nf'" "P f'"
        using "1.IH" P1 by blast
      then show ?thesis using unfold False by auto
    next
      case True
      then obtain n where n: "nextArg = Some n" "\<not> startsWith n ''-''"
        using parseArg_consumed [of arg nextArg flags nonFlags] step by auto
      have "rest \<noteq> []"
      proof
        assume "rest = []"
        then have "nextArg = Some t" by (simp add: nextArg_def)
        then show False using n dash by simp
      qed
      then obtain r rest' where rest: "rest = r # rest'" by (cases rest) auto
      have "length rest' < length pre" using Cons rest by simp
      then obtain f' nf' where "parseLoop (rest' @ t # suf) f1 nf1 = parseLoop (t # suf) f' nf'" "P f'"
        using "1.IH" P1 by blast
      then show ?thesis using unfold True rest by auto
    qed
  qed
qed

lemma addFlag_help_present: "addFlag f ''help'' w ''help'' \<noteq> None"
  by (auto simp: addFlag_def setProperty_def split: option.splits jsval.splits)

lemma addFlag_help_existing:
  "f ''help'' = Some e \<Longrightarrow> \<exists>v. addFlag f ''help'' w ''help'' = Some v \<and> v \<noteq> VBool True"
  by (cases e) (auto simp: addFlag_def getProperty_own setProperty_def)

lemma addFlag_help_value:
  "w \<noteq> VBool True \<Longrightarrow> \<exists>v. addFlag f ''help'' w ''help'' = Some v \<and> v \<noteq> VBool True"
  by (auto simp: addFlag_def setProperty_def split: option.splits jsval.splits)

lemma help_not_true_preserved:
  "(\<exists>v. f ''help'' = Some v \<and> v \<noteq> VBool True) \<Longrightarrow>
   (\<exists>v. addFlag f k w ''help'' = Some v \<and> v \<noteq> VBool True)"
proof (cases "k = ''help''")
  case True
  assume "\<exists>v. f ''help'' = Some v \<and> v \<noteq> VBool True"
  then show ?thesis using addFlag_help_existing [of f _ w] True by auto
next
  case False
  assume "\<exists>v. f ''help'' = Some v \<and> v \<noteq> VBool True"
  then show ?thesis using False by (simp add: addFlag_other)
qed

lemma help_present_preserved:
  "f ''help'' \<noteq> None \<Longrightarrow> addFlag f k w ''help'' \<noteq> None"
  by (cases "k = ''help''") (simp_all add: addFlag_help_present addFlag_other)

lemma parseFlags_help: "parseFlags argv ''help'' = fst (parseLoop argv Map.empty []) ''help''"
  by (simp add: parseFlags_def spread_def split: prod.splits)

lemma help_with_value:
  assumes tok: "tok \<noteq> []" "\<not> startsWith tok ''-''"
  shows "parseFlags (pre @ ''--help'' # tok # rest) ''help'' \<noteq> Some (VBool True)"
proof -
  obtain f nf where p: "parseLoop (pre @ ''--help'' # tok # rest) Map.empty []
                         = parseLoop (''--help'' # tok # rest) f nf"
    using parseLoop_prefix [of "\<lambda>f. True" "''--help''" Map.empty pre "tok # rest" "[]"]
    by (auto simp: startsWith_def)
  have s: "parseLoop (''--help'' # tok # rest) f nf
           = parseLoop rest (addFlag f ''help'' (VStr tok)) nf"
    using tok by (simp add: parseArg_def startsWith_def)
  have "\<exists>v. addFlag f ''help'' (VStr tok) ''help'' = Some v \<and> v \<noteq> VBool True"
    by (rule addFlag_help_value) simp
  then have "\<exists>v. fst (parseLoop rest (addFlag f ''help'' (VStr tok)) nf) ''help'' = Some v
                 \<and> v \<noteq> VBool True"
    by (rule parseLoop_flags_invariant [rotated]) (rule help_not_true_preserved)
  then show ?thesis using p s by (auto simp: parseFlags_help)
qed

lemma help_twice:
  "parseFlags (pre @ ''--help'' # mid @ ''--help'' # rest) ''help'' \<noteq> Some (VBool True)"
proof -
  obtain f nf where p: "parseLoop (pre @ ''--help'' # mid @ ''--help'' # rest) Map.empty []
                         = parseLoop (''--help'' # mid @ ''--help'' # rest) f nf"
    using parseLoop_prefix [of "\<lambda>f. True" "''--help''" Map.empty pre "mid @ ''--help'' # rest" "[]"]
    by (auto simp: startsWith_def)
  define nextArg where "nextArg = (case mid @ ''--help'' # rest of [] \<Rightarrow> None | n # ns \<Rightarrow> Some n)"
  obtain consumed f1 nf1 where step: "parseArg ''--help'' nextArg f nf = (consumed, f1, nf1)"
    by (metis prod_cases3)
  have A1: "f1 ''help'' \<noteq> None"
  proof -
    obtain w where "f1 = addFlag f ''help'' w"
      using step by (auto simp: parseArg_def Let_def startsWith_def
                        split: option.splits if_splits)
    then show ?thesis using addFlag_help_present [of f w] by simp
  qed
  have unfold: "parseLoop (''--help'' # mid @ ''--help'' # rest) f nf
                = parseLoop (if consumed then drop 1 (mid @ ''--help'' # rest)
                             else mid @ ''--help'' # rest) f1 nf1"
    using step by (simp add: nextArg_def)
  have "\<exists>mid'. (if consumed then drop 1 (mid @ ''--help'' # rest) else mid @ ''--help'' # rest)
               = mid' @ ''--help'' # rest"
  proof (cases consumed)
    case False
    then show ?thesis by auto
  next
    case True
    then obtain n where n: "nextArg = Some n" "\<not> startsWith n ''-''"
      using parseArg_consumed [of "''--help''" nextArg f nf] step by auto
    have "mid \<noteq> []"
    proof
      assume "mid = []"
      then have "nextArg = Some ''--help''" by (simp add: nextArg_def)
      then show False using n by (simp add: startsWith_def)
    qed
    then obtain m mid' where "mid = m # mid'" by (cases mid) auto
    then show ?thesis using True by auto
  qed
  then obtain mid' where rem: "parseLoop (''--help'' # mid @ ''--help'' # rest) f nf
                               = parseLoop (mid' @ ''--help'' # rest) f1 nf1"
    using unfold by auto
  obtain f2 nf2 where p2: "parseLoop (mid' @ ''--help'' # rest) f1 nf1
                            = parseLoop (''--help'' # rest) f2 nf2"
      and A2: "f2 ''help'' \<noteq> None"
    using parseLoop_prefix [of "\<lambda>f. f ''help'' \<noteq> None" "''--help''" f1 mid' rest nf1]
      help_present_preserved A1
    by (auto simp: startsWith_def)
  define nextArg2 where "nextArg2 = (case rest of [] \<Rightarrow> None | n # ns \<Rightarrow> Some n)"
  obtain consumed2 f3 nf3 where step2: "parseArg ''--help'' nextArg2 f2 nf2 = (consumed2, f3, nf3)"
    by (metis prod_cases3)
  have B3: "\<exists>v. f3 ''help'' = Some v \<and> v \<noteq> VBool True"
  proof -
    obtain e where e: "f2 ''help'' = Some e" using A2 by auto
    obtain w where "f3 = addFlag f2 ''help'' w"
      using step2 by (auto simp: parseArg_def Let_def startsWith_def
                        split: option.splits if_splits)
    then show ?thesis using addFlag_help_existing [of f2 e w] e by simp
  qed
  have unfold2: "parseLoop (''--help'' # rest) f2 nf2
                = parseLoop (if consumed2 then drop 1 rest else rest) f3 nf3"
    using step2 by (simp add: nextArg2_def)
  have "\<exists>v. fst (parseLoop (if consumed2 then drop 1 rest else rest) f3 nf3) ''help'' = Some v
                 \<and> v \<noteq> VBool True"
    using B3 by (rule parseLoop_flags_invariant [rotated]) (rule help_not_true_preserved)
  then show ?thesis using p rem p2 unfold2 by (auto simp: parseFlags_help)
qed

text \<open>
  Claim C10, as stated, fails: a non-dash token behind \<^verbatim>\<open>--help\<close> is not always consumed as
  its value. In \<^verbatim>\<open>['test', '--help', '']\<close> the token behind \<^verbatim>\<open>--help\<close> does not begin with a
  dash, but it is empty, so \<^verbatim>\<open>help\<close> is the boolean \<^verbatim>\<open>true\<close> and the help path is taken.
\<close>

theorem C10_empty_token_counterexample:
  "\<not> startsWith [] ''-''
   \<and> parseFlags [''test'', ''--help'', []] ''help'' = Some (VBool True)
   \<and> snd (processConfig plainConfig [''test'', ''--help'', []]) = Exit 0"
  by (simp add: processConfig_def plainConfig_def positionals_def ev)

text \<open>
  Claim C10, amended. The process exits (always with status 0, after printing a help
  screen) only when the entry \<^verbatim>\<open>help\<close> of the flag object is exactly the boolean \<^verbatim>\<open>true\<close>. When
  \<^verbatim>\<open>--help\<close> is followed by a token that is not empty and has no leading dash, the entry is
  a string; when \<^verbatim>\<open>--help\<close> occurs twice, it is an array; in both cases the entry is not
  \<^verbatim>\<open>true\<close>, wherever in the argument vector this happens, so there is no exit: without
  positionals the default command is processed or \<^verbatim>\<open>No command specified.\<close> is thrown, and
  with a registered command as first positional that command is processed.
\<close>

theorem C10_help_only_when_true:
  "(snd (processConfig config argv) = Exit n \<longrightarrow>
      parseFlags argv ''help'' = Some (VBool True) \<and> n = 0)
   \<and> (tok \<noteq> [] \<and> \<not> startsWith tok ''-'' \<longrightarrow>
        parseFlags (pre @ ''--help'' # tok # rest) ''help'' \<noteq> Some (VBool True)
        \<and> snd (processConfig config (pre @ ''--help'' # tok # rest)) \<noteq> Exit n)
   \<and> parseFlags (pre @ ''--help'' # mid @ ''--help'' # rest) ''help'' \<noteq> Some (VBool True)
   \<and> snd (processConfig config (pre @ ''--help'' # mid @ ''--help'' # rest)) \<noteq> Exit n
   \<and> (parseFlags argv ''help'' \<noteq> Some (VBool True) \<and> positionals (parseFlags argv) = [] \<longrightarrow>
        processConfig config argv
          = (case defaultCommand config of
               Some dc \<Rightarrow> finish (processCommandExecution dc (parseFlags argv) [])
             | None \<Rightarrow> ([DisplayHelp], Throw (Error ''No command specified.''))))
   \<and> (parseFlags argv ''help'' \<noteq> Some (VBool True)
        \<and> positionals (parseFlags argv) = name # remaining
        \<and> commands config name = Some cmd \<longrightarrow>
        processConfig config argv
          = finish (processCommandExecution cmd (parseFlags argv) remaining))
   \<and> parseFlags [''test'', ''--help'', ''x''] ''help'' = Some (VStr ''x'')
   \<and> parseFlags [''test'', ''--help'', ''--help''] ''help''
       = Some (VArr [VBool True, VBool True])"
proof -
  have only: "\<And>argv n. snd (processConfig config argv) = Exit n \<Longrightarrow>
      parseFlags argv ''help'' = Some (VBool True) \<and> n = 0"
    by (auto simp: processConfig_def Let_def finish_def
        split: list.splits if_splits option.splits sum.splits)
  have "snd (processConfig config argv) = Exit n \<longrightarrow>
      parseFlags argv ''help'' = Some (VBool True) \<and> n = 0"
    using only by blast
  moreover have "tok \<noteq> [] \<and> \<not> startsWith tok ''-'' \<longrightarrow>
        parseFlags (pre @ ''--help'' # tok # rest) ''help'' \<noteq> Some (VBool True)
        \<and> snd (processConfig config (pre @ ''--help'' # tok # rest)) \<noteq> Exit n"
    using help_with_value [of tok pre rest] only [of "pre @ ''--help'' # tok # rest" n] by blast
  moreover have "parseFlags (pre @ ''--help'' # mid @ ''--help'' # rest) ''help''
                 \<noteq> Some (VBool True)"
    by (rule help_twice)
  moreover have "snd (processConfig config (pre @ ''--help'' # mid @ ''--help'' # rest)) \<noteq> Exit n"
    using help_twice [of pre mid rest] only [of "pre @ ''--help'' # mid @ ''--help'' # rest" n]
    by blast
  moreover have "parseFlags argv ''help'' \<noteq> Some (VBool True)
        \<and> positionals (parseFlags argv) = [] \<longrightarrow>
        processConfig config argv
          = (case defaultCommand config of
               Some dc \<Rightarrow> finish (processCommandExecution dc (parseFlags argv) [])
             | None \<Rightarrow> ([DisplayHelp], Throw (Error ''No command specified.'')))"
    by (auto simp: processConfig_def Let_def split: option.splits)
  moreover have "parseFlags argv ''help'' \<noteq> Some (VBool True)
        \<and> positionals (parseFlags argv) = name # remaining
        \<and> commands config name = Some cmd \<longrightarrow>
        processConfig config argv
          = finish (processCommandExecution cmd (parseFlags argv) remaining)"
    using positionals_nonempty [of argv]
    by (auto simp: processConfig_def Let_def)
  moreover have "parseFlags [''test'', ''--help'', ''x''] ''help'' = Some (VStr ''x'')"
    by (simp add: ev)
  moreover have "parseFlags [''test'', ''--help'', ''--help''] ''help''
       = Some (VArr [VBool True, VBool True])"
    by (simp add: ev)
  ultimately show ?thesis by blast
qed

theorem C10_help_only_when_true_witness:
  "snd (processConfig plainConfig [''test'', ''--help'']) = Exit 0
   \<and> parseFlags [''test'', ''--help''] ''help'' = Some (VBool True)
   \<and> ''x'' \<noteq> [] \<and> \<not> startsWith ''x'' ''-''
   \<and> parseFlags ([''test''] @ ''--help'' # ''x'' # []) ''help'' \<noteq> Some (VBool True)
   \<and> snd (processConfig plainConfig ([''test''] @ ''--help'' # ''x'' # [])) \<noteq> Exit 0
   \<and> snd (processConfig plainConfig ([''test''] @ ''--help'' # [] @ ''--help'' # [])) \<noteq> Exit 0
   \<and> processConfig plainConfig [''test'', ''--help'', ''x'']
       = finish (processCommandExecution plainCommand (parseFlags [''test'', ''--help'', ''x'']) [])
   \<and> processConfig plainConfig [''--help'', ''x'']
       = ([DisplayHelp], Throw (Error ''No command specified.''))"
proof -
  note c10 = C10_help_only_when_true
  note ev = positionals_def ev
  have e: "snd (processConfig plainConfig [''test'', ''--help'']) = Exit 0"
    by (simp add: processConfig_def plainConfig_def ev)
  have t: "''x'' \<noteq> [] \<and> \<not> startsWith ''x'' ''-''"
    by (simp add: startsWith_def)
  have nh: "parseFlags [''test'', ''--help'', ''x''] ''help'' \<noteq> Some (VBool True)"
    by (simp add: ev)
  have pos: "positionals (parseFlags [''test'', ''--help'', ''x'']) = ''test'' # []"
            "commands plainConfig ''test'' = Some plainCommand"
    by (simp_all add: ev plainConfig_def)
  have nh2: "parseFlags [''--help'', ''x''] ''help'' \<noteq> Some (VBool True)
             \<and> positionals (parseFlags [''--help'', ''x'']) = []"
    by (simp add: ev)
  have nd: "defaultCommand plainConfig = None" by (simp add: plainConfig_def)
  have "parseFlags [''test'', ''--help''] ''help'' = Some (VBool True)"
    using c10 [of plainConfig "[''test'', ''--help'']" 0] e by blast
  moreover have "parseFlags ([''test''] @ ''--help'' # ''x'' # []) ''help'' \<noteq> Some (VBool True)
        \<and> snd (processConfig plainConfig ([''test''] @ ''--help'' # ''x'' # [])) \<noteq> Exit 0"
    using c10 [of plainConfig _ 0 "''x''" "[''test'']" "[]"] t by blast
  moreover have "snd (processConfig plainConfig ([''test''] @ ''--help'' # [] @ ''--help'' # []))
                 \<noteq> Exit 0"
    using c10 [of plainConfig _ 0 _ "[''test'']" "[]" "[]"] by blast
  moreover have "processConfig plainConfig [''test'', ''--help'', ''x'']
       = finish (processCommandExecution plainCommand (parseFlags [''test'', ''--help'', ''x'']) [])"
    using c10 [of plainConfig "[''test'', ''--help'', ''x'']" _ _ _ _ _ "''test''" "[]" plainCommand]
      nh pos
    by blast
  moreover have "processConfig plainConfig [''--help'', ''x'']
       = ([DisplayHelp], Throw (Error ''No command specified.''))"
    using c10 [of plainConfig "[''--help'', ''x'']"] nh2 nd by simp
  ultimately show ?thesis using e t by blast
qed

section \<open>Alias resolution\<close>

text \<open>
  An alias entry is ordinary when its key is not the name of a member of \<^verbatim>\<open>Object.prototype\<close>
  and its target is not \<^verbatim>\<open>__proto__\<close>. On a plain object an ordinary entry only reads and
  writes own properties.
\<close>

lemma aliasStep_plain:
  assumes "r ''__proto__'' = None" and "a \<notin> set objectPrototypeKeys" and "t \<noteq> ''__proto__''"
  shows "aliasStep r (a, t) = (case r a of Some v \<Rightarrow> (r(t \<mapsto> v))(a := None) | None \<Rightarrow> r)"
proof -
  have a: "a \<noteq> ''__proto__''" using assms(2) proto_is_inherited by auto
  show ?thesis
    using assms a
    by (simp add: aliasStep_def getProperty_plain setProperty_def deleteProperty_def
          split: option.splits)
qed

lemma aliasStep_plain_proto:
  assumes "r ''__proto__'' = None" and "a \<notin> set objectPrototypeKeys" and "t \<noteq> ''__proto__''"
  shows "aliasStep r (a, t) ''__proto__'' = None"
proof -
  have a: "a \<noteq> ''__proto__''" using assms(2) proto_is_inherited by auto
  show ?thesis
    using assms a by (simp add: aliasStep_plain split: option.splits)
qed

lemma alias_fold_other:
  "r ''__proto__'' = None \<Longrightarrow>
   \<forall>(a, t) \<in> set als. a \<notin> set objectPrototypeKeys \<and> t \<noteq> ''__proto__'' \<Longrightarrow>
   k \<notin> fst ` set als \<Longrightarrow> k \<notin> snd ` set als \<Longrightarrow>
   foldl aliasStep r als k = r k \<and> foldl aliasStep r als ''__proto__'' = None"
proof (induction als arbitrary: r)
  case Nil
  then show ?case by simp
next
  case (Cons e als)
  obtain a t where e: "e = (a, t)" by (cases e)
  have wf: "a \<notin> set objectPrototypeKeys" "t \<noteq> ''__proto__''" using Cons.prems(2) e by auto
  have "k \<noteq> a" "k \<noteq> t" using Cons.prems(3,4) e by auto
  then have same: "aliasStep r e k = r k"
    using aliasStep_plain [of r a t, OF Cons.prems(1) wf] by (simp add: e split: option.splits)
  have plain: "aliasStep r e ''__proto__'' = None"
    using aliasStep_plain_proto [of r a t, OF Cons.prems(1) wf] by (simp add: e)
  have "foldl aliasStep (aliasStep r e) als k = aliasStep r e k
        \<and> foldl aliasStep (aliasStep r e) als ''__proto__'' = None"
    using Cons.IH [of "aliasStep r e", OF plain] Cons.prems(2,3,4) by simp
  then show ?case using same by simp
qed

lemma alias_fold_target:
  "r ''__proto__'' = None \<Longrightarrow>
   \<forall>(a, t) \<in> set als. a \<notin> set objectPrototypeKeys \<and> t \<noteq> ''__proto__'' \<Longrightarrow>
   t \<notin> fst ` set als \<Longrightarrow> snd ` set als \<inter> fst ` set als = {} \<Longrightarrow>
   (\<forall>(a', t') \<in> set als. t' = t \<longrightarrow> r a' = None) \<Longrightarrow>
   foldl aliasStep r als t = r t"
proof (induction als arbitrary: r)
  case Nil
  then show ?case by simp
next
  case (Cons e als)
  obtain a' t' where e: "e = (a', t')" by (cases e)
  have wf: "a' \<notin> set objectPrototypeKeys" "t' \<noteq> ''__proto__''" using Cons.prems(2) e by auto
  note step = aliasStep_plain [of r a' t', OF Cons.prems(1) wf]
  have plain: "aliasStep r e ''__proto__'' = None"
    using aliasStep_plain_proto [of r a' t', OF Cons.prems(1) wf] by (simp add: e)
  have wf': "\<forall>(a, t) \<in> set als. a \<notin> set objectPrototypeKeys \<and> t \<noteq> ''__proto__''"
    using Cons.prems(2) by simp
  have ta: "t \<noteq> a'" using Cons.prems(3) e by auto
  have disj: "snd ` set als \<inter> fst ` set als = {}" using Cons.prems(4) by auto
  have t'na: "t' \<notin> fst ` set als" using Cons.prems(4) e by auto
  have step_t: "aliasStep r e t = r t"
  proof (cases "t' = t")
    case True
    then have "r a' = None" using Cons.prems(5) e by auto
    then show ?thesis using step by (simp add: e)
  next
    case False
    then show ?thesis using ta step by (simp add: e split: option.splits)
  qed
  have keep: "\<forall>(a'', t'') \<in> set als. t'' = t \<longrightarrow> aliasStep r e a'' = None"
  proof (clarify)
    fix a''
    assume m: "(a'', t) \<in> set als"
    then have "r a'' = None" using Cons.prems(5) by auto
    moreover have "a'' \<in> fst ` set als" using m by force
    then have "a'' \<noteq> t'" using t'na by blast
    ultimately show "aliasStep r e a'' = None"
      using step by (simp add: e split: option.splits)
  qed
  have "foldl aliasStep (aliasStep r e) als t = aliasStep r e t"
    using Cons.IH [of "aliasStep r e", OF plain wf' _ disj keep] Cons.prems(3) by simp
  then show ?case using step_t by simp
qed

lemma alias_wins:
  assumes wf: "\<forall>(a, t) \<in> set als. a \<notin> set objectPrototypeKeys \<and> t \<noteq> ''__proto__''"
      and dist: "distinct (map fst als)"
      and disj: "snd ` set als \<inter> fst ` set als = {}"
      and mem: "(al, tg) \<in> set als"
      and present: "flags al = Some v"
      and only: "\<forall>(a, t) \<in> set als. t = tg \<and> a \<noteq> al \<longrightarrow> flags a = None"
  shows "resolveAliases flags (Some als) tg = Some v"
    and "resolveAliases flags (Some als) al = None"
proof -
  obtain pre post where decomp: "als = pre @ (al, tg) # post"
    using mem by (meson split_list)
  have wf_pre: "\<forall>(a, t) \<in> set pre. a \<notin> set objectPrototypeKeys \<and> t \<noteq> ''__proto__''"
    and wf_post: "\<forall>(a, t) \<in> set post. a \<notin> set objectPrototypeKeys \<and> t \<noteq> ''__proto__''"
    and wf_al: "al \<notin> set objectPrototypeKeys" "tg \<noteq> ''__proto__''"
    using wf decomp by auto
  have al_ne: "al \<noteq> ''__proto__''" using wf_al proto_is_inherited by auto
  have a_pre: "al \<notin> fst ` set pre" and a_post: "al \<notin> fst ` set post"
    using dist decomp by auto
  have "al \<in> fst ` set als" and tg_in: "tg \<in> snd ` set als" using mem by force+
  then have a_tgt: "al \<notin> snd ` set als" and t_src: "tg \<notin> fst ` set als"
    using disj by blast+
  have ne: "tg \<noteq> al" using a_tgt tg_in by blast
  define r0 where "r0 = spread flags"
  define r1 where "r1 = foldl aliasStep r0 pre"
  define r2 where "r2 = aliasStep r1 (al, tg)"
  have r0p: "r0 ''__proto__'' = None" by (simp add: r0_def spread_def)
  have r0k: "\<And>k. k \<noteq> ''__proto__'' \<Longrightarrow> r0 k = flags k" by (simp add: r0_def spread_def)
  have "al \<notin> snd ` set pre" using a_tgt decomp by auto
  then have r1a: "r1 al = Some v" and r1p: "r1 ''__proto__'' = None"
    using alias_fold_other [of r0 pre al, OF r0p wf_pre a_pre] present r0k [OF al_ne] unfolding r1_def by simp_all
  note step = aliasStep_plain [of r1 al tg, OF r1p wf_al]
  have r2t: "r2 tg = Some v" and r2a: "r2 al = None" and r2p: "r2 ''__proto__'' = None"
    using r1a r1p ne al_ne wf_al(2) by (simp_all add: r2_def step)
  have res: "resolveAliases flags (Some als) = foldl aliasStep r2 post"
    by (simp add: resolveAliases_def decomp r0_def r1_def r2_def)
  have post_disj: "snd ` set post \<inter> fst ` set post = {}" using disj decomp by auto
  have post_none: "\<forall>(a', t') \<in> set post. t' = tg \<longrightarrow> r2 a' = None"
  proof (clarify)
    fix a'
    assume m: "(a', tg) \<in> set post"
    have a'post: "a' \<in> fst ` set post" using m by force
    then have a'ne: "a' \<noteq> al" using a_post by blast
    have in_als: "(a', tg) \<in> set als" using m decomp by simp
    have f: "flags a' = None" using only in_als a'ne by auto
    have "a' \<notin> set objectPrototypeKeys" using wf in_als by auto
    then have a'p: "a' \<noteq> ''__proto__''" using proto_is_inherited by auto
    have "a' \<in> fst ` set als" using in_als by force
    then have nt: "a' \<notin> snd ` set als" using disj by blast
    have "a' \<notin> fst ` set pre" using a'post dist decomp by auto
    moreover have "a' \<notin> snd ` set pre" using nt decomp by auto
    ultimately have "r1 a' = r0 a'"
      using alias_fold_other [of r0 pre a', OF r0p wf_pre] unfolding r1_def by simp
    moreover have "a' \<noteq> tg" using nt tg_in by blast
    ultimately show "r2 a' = None"
      using f a'ne r0k [OF a'p] by (simp add: r2_def step split: option.splits)
  qed
  have "tg \<notin> fst ` set post" using t_src decomp by auto
  then show "resolveAliases flags (Some als) tg = Some v"
    using alias_fold_target [of r2 post tg, OF r2p wf_post _ post_disj post_none] r2t res by simp
  have "al \<notin> snd ` set post" using a_tgt decomp by auto
  then show "resolveAliases flags (Some als) al = None"
    using alias_fold_other [of r2 post al, OF r2p wf_post a_post] r2a res by simp
qed

section \<open>Naming resolution\<close>

lemma toLowerCase_inj:
  assumes c: "isUpper c" and d: "isUpper d" and eq: "toLowerCase c = toLowerCase d"
  shows "c = d"
proof -
  have cb: "(of_char c :: nat) \<le> 90" and db: "(of_char d :: nat) \<le> 90"
    using c d by (simp_all add: isUpper_def less_eq_char_def)
  from eq c d have "char_of (of_char c + (32::nat)) = (char_of (of_char d + (32::nat)) :: char)"
    by (simp add: toLowerCase_def)
  then have "(of_char (char_of (of_char c + (32::nat)) :: char) :: nat)
             = of_char (char_of (of_char d + (32::nat)) :: char)"
    by simp
  then have "(of_char c + 32) mod 256 = ((of_char d + 32) mod 256 :: nat)"
    by (simp only: of_char_of)
  then have "(of_char c :: nat) = of_char d" using cb db by simp
  then show "c = d" by simp
qed

lemma kebab_empty: "camelToKebab s = [] \<longleftrightarrow> s = []"
  by (cases s) (simp_all add: camelToKebab_def)

lemma kebab_Cons:
  "camelToKebab (c # s) = (if isUpper c then CHR ''-'' # toLowerCase c # camelToKebab s
                           else c # camelToKebab s)"
  by (simp add: camelToKebab_def)

lemma kebab_inj:
  "CHR ''-'' \<notin> set s \<Longrightarrow> CHR ''-'' \<notin> set t \<Longrightarrow> camelToKebab s = camelToKebab t \<Longrightarrow> s = t"
proof (induction s arbitrary: t)
  case Nil
  then show ?case using kebab_empty [of t] by (simp add: camelToKebab_def)
next
  case (Cons c s)
  show ?case
  proof (cases t)
    case Nil
    then show ?thesis using Cons.prems(3) kebab_empty [of "c # s"] by (simp add: camelToKebab_def)
  next
    case (Cons d t')
    have eq: "camelToKebab (c # s) = camelToKebab (d # t')"
      using Cons.prems(3) Cons by simp
    have cd: "c \<noteq> CHR ''-''" "d \<noteq> CHR ''-''" using Cons.prems(1,2) Cons by auto
    have tails: "CHR ''-'' \<notin> set s" "CHR ''-'' \<notin> set t'" using Cons.prems(1,2) Cons by auto
    have "c = d \<and> camelToKebab s = camelToKebab t'"
      using eq cd toLowerCase_inj [of c d]
      by (auto simp: kebab_Cons split: if_splits)
    then show ?thesis using Cons.IH [OF tails] Cons by simp
  qed
qed

lemma kebab_no_hyphen: "CHR ''-'' \<notin> set (camelToKebab s) \<Longrightarrow> camelToKebab s = s"
  by (induction s) (auto simp: kebab_Cons kebab_empty split: if_splits)

text \<open>Field names without a hyphen, as camelCase identifiers are, are unambiguous.\<close>

lemma camelCase_unambiguous:
  assumes "\<forall>c \<in> set cs. CHR ''-'' \<notin> set c"
  shows "unambiguous cs"
  unfolding unambiguous_def
proof (intro ballI impI conjI)
  fix c c' assume m: "c \<in> set cs" "c' \<in> set cs" and ne: "c \<noteq> c'"
  show "camelToKebab c \<noteq> camelToKebab c'"
    using kebab_inj [of c c'] assms m ne by blast
  show "camelToKebab c \<noteq> c'"
  proof
    assume e: "camelToKebab c = c'"
    then have "CHR ''-'' \<notin> set (camelToKebab c)" using assms m by blast
    then have "camelToKebab c = c" by (rule kebab_no_hyphen)
    then show False using e ne by simp
  qed
qed

lemma kebab_androidMax: "camelToKebab ''androidMax'' = ''android-max''"
  by code_simp

text \<open>
  No member of \<^verbatim>\<open>Object.prototype\<close> has a hyphen in its name, so the hyphenated spelling of a
  field is the name of such a member only if the field itself is.
\<close>

lemma objectPrototypeKeys_no_hyphen: "k \<in> set objectPrototypeKeys \<Longrightarrow> CHR ''-'' \<notin> set k"
  by (auto simp: objectPrototypeKeys_def)

lemma kebab_not_inherited:
  assumes "c \<notin> set objectPrototypeKeys"
  shows "camelToKebab c \<notin> set objectPrototypeKeys"
proof
  assume m: "camelToKebab c \<in> set objectPrototypeKeys"
  then have "camelToKebab c = c"
    using objectPrototypeKeys_no_hyphen kebab_no_hyphen by blast
  then show False using m assms by simp
qed

lemma kebabStep_plain:
  assumes p: "r ''__proto__'' = None" and c: "c \<notin> set objectPrototypeKeys"
  shows "kebabStep r c
           = (if r c = None then
                (case r (camelToKebab c) of
                   Some v \<Rightarrow> (r(c \<mapsto> v))(camelToKebab c := None)
                 | None \<Rightarrow> r)
              else r)"
    and "kebabStep r c ''__proto__'' = None"
proof -
  have k: "camelToKebab c \<notin> set objectPrototypeKeys" using c by (rule kebab_not_inherited)
  have cn: "c \<noteq> ''__proto__''" and kn: "camelToKebab c \<noteq> ''__proto__''"
    using c k proto_is_inherited by auto
  have g1: "hasProperty r c = (r c \<noteq> None)"
    using p c by (simp add: hasProperty_def getProperty_plain)
  have g2: "getProperty r (camelToKebab c) = r (camelToKebab c)"
    using p k by (simp add: getProperty_plain)
  show eq: "kebabStep r c
           = (if r c = None then
                (case r (camelToKebab c) of
                   Some v \<Rightarrow> (r(c \<mapsto> v))(camelToKebab c := None)
                 | None \<Rightarrow> r)
              else r)"
    using cn kn
    by (simp add: kebabStep_def g1 g2 Let_def setProperty_def deleteProperty_def
          split: option.splits)
  show "kebabStep r c ''__proto__'' = None"
    using p cn kn by (simp add: eq split: option.splits)
qed

lemma kebab_fold_other:
  "r ''__proto__'' = None \<Longrightarrow> \<forall>c \<in> set cs. c \<notin> set objectPrototypeKeys \<Longrightarrow>
   k \<notin> set cs \<Longrightarrow> k \<notin> camelToKebab ` set cs \<Longrightarrow>
   foldl kebabStep r cs k = r k \<and> foldl kebabStep r cs ''__proto__'' = None"
proof (induction cs arbitrary: r)
  case Nil
  then show ?case by simp
next
  case (Cons c cs)
  have wf: "c \<notin> set objectPrototypeKeys" using Cons.prems(2) by simp
  note step = kebabStep_plain [of r c, OF Cons.prems(1) wf]
  have "k \<noteq> c" "k \<noteq> camelToKebab c" using Cons.prems(3,4) by auto
  then have same: "kebabStep r c k = r k"
    by (simp add: step(1) split: option.splits)
  have "foldl kebabStep (kebabStep r c) cs k = kebabStep r c k
        \<and> foldl kebabStep (kebabStep r c) cs ''__proto__'' = None"
    using Cons.IH [of "kebabStep r c", OF step(2)] Cons.prems(2,3,4) by simp
  then show ?case using same by simp
qed

lemma kebab_field:
  assumes dist: "distinct cs"
      and un: "unambiguous cs"
      and wf: "\<forall>c \<in> set cs. c \<notin> set objectPrototypeKeys"
      and mem: "c \<in> set cs"
  shows "foldl kebabStep (spread flags) cs c
           = (if flags c = None then flags (camelToKebab c) else flags c)"
    and "foldl kebabStep (spread flags) cs (camelToKebab c)
           = (if flags c = None then None else flags (camelToKebab c))"
proof -
  obtain pre post where decomp: "cs = pre @ c # post"
    using mem by (meson split_list)
  have wf_pre: "\<forall>c \<in> set pre. c \<notin> set objectPrototypeKeys"
    and wf_post: "\<forall>c \<in> set post. c \<notin> set objectPrototypeKeys"
    and wf_c: "c \<notin> set objectPrototypeKeys"
    using wf decomp by auto
  have wf_k: "camelToKebab c \<notin> set objectPrototypeKeys" using wf_c by (rule kebab_not_inherited)
  have cn: "c \<noteq> ''__proto__''" and kn: "camelToKebab c \<noteq> ''__proto__''"
    using wf_c wf_k proto_is_inherited by auto
  have c_pre: "c \<notin> set pre" and c_post: "c \<notin> set post"
    using dist decomp by auto
  have others: "\<And>c'. c' \<in> set pre \<union> set post \<Longrightarrow>
                  camelToKebab c \<noteq> camelToKebab c' \<and> camelToKebab c \<noteq> c' \<and> camelToKebab c' \<noteq> c"
  proof -
    fix c' assume m: "c' \<in> set pre \<union> set post"
    then have "c' \<in> set cs" and "c \<noteq> c'" using decomp c_pre c_post by auto
    then show "camelToKebab c \<noteq> camelToKebab c' \<and> camelToKebab c \<noteq> c' \<and> camelToKebab c' \<noteq> c"
      using un mem unfolding unambiguous_def by metis
  qed
  have c_kpre: "c \<notin> camelToKebab ` set pre" and c_kpost: "c \<notin> camelToKebab ` set post"
    using others by auto
  have k_pre: "camelToKebab c \<notin> set pre" and k_post: "camelToKebab c \<notin> set post"
    using others by auto
  have k_kpre: "camelToKebab c \<notin> camelToKebab ` set pre"
    and k_kpost: "camelToKebab c \<notin> camelToKebab ` set post"
    using others by auto
  define r0 where "r0 = spread flags"
  define r1 where "r1 = foldl kebabStep r0 pre"
  define r2 where "r2 = kebabStep r1 c"
  have r0p: "r0 ''__proto__'' = None" by (simp add: r0_def spread_def)
  have r0c: "r0 c = flags c" and r0k: "r0 (camelToKebab c) = flags (camelToKebab c)"
    using cn kn by (simp_all add: r0_def spread_def)
  have r1c: "r1 c = flags c" and r1p: "r1 ''__proto__'' = None"
    using kebab_fold_other [of r0 pre c, OF r0p wf_pre c_pre c_kpre] r0c
    unfolding r1_def by simp_all
  have r1k: "r1 (camelToKebab c) = flags (camelToKebab c)"
    using kebab_fold_other [of r0 pre "camelToKebab c", OF r0p wf_pre k_pre k_kpre] r0k
    unfolding r1_def by simp
  note step = kebabStep_plain [of r1 c, OF r1p wf_c]
  have r2p: "r2 ''__proto__'' = None" using step(2) by (simp add: r2_def)
  have res: "foldl kebabStep (spread flags) cs = foldl kebabStep r2 post"
    by (simp add: decomp r0_def r1_def r2_def)
  have fin_c: "foldl kebabStep r2 post c = r2 c"
    using kebab_fold_other [of r2 post c, OF r2p wf_post c_post c_kpost] by simp
  have fin_k: "foldl kebabStep r2 post (camelToKebab c) = r2 (camelToKebab c)"
    using kebab_fold_other [of r2 post "camelToKebab c", OF r2p wf_post k_post k_kpost] by simp
  have r2c: "r2 c = (if flags c = None then flags (camelToKebab c) else flags c)"
    using r1c r1k by (auto simp: r2_def step(1) split: option.splits)
  have r2k: "r2 (camelToKebab c) = (if flags c = None then None else flags (camelToKebab c))"
    using r1c r1k by (auto simp: r2_def step(1) split: option.splits)
  show "foldl kebabStep (spread flags) cs c
          = (if flags c = None then flags (camelToKebab c) else flags c)"
    using res fin_c r2c by simp
  show "foldl kebabStep (spread flags) cs (camelToKebab c)
           = (if flags c = None then None else flags (camelToKebab c))"
    using res fin_k r2k by simp
qed

lemma kebab_aB: "camelToKebab ''aB'' = ''a-b''"
  by code_simp

lemma kebab_a_b: "camelToKebab ''a-b'' = ''a-b''"
  by code_simp

text \<open>
  Claim C7 does not hold as stated. With the aliases \<^verbatim>\<open>{a: 'b', b: 'c'}\<close>, where the target
  of one alias is itself an alias, the bag \<^verbatim>\<open>{a: true, b: false}\<close> holds the alias \<^verbatim>\<open>a\<close> and
  its target \<^verbatim>\<open>b\<close>, and the result is \<^verbatim>\<open>{c: true}\<close>: the target \<^verbatim>\<open>b\<close> is absent. With two
  aliases of one target, \<^verbatim>\<open>{v: 'verbose', V: 'verbose'}\<close> on
  \<^verbatim>\<open>{v: true, V: false, verbose: 'x'}\<close>, the value of \<^verbatim>\<open>v\<close> does not win: the entry that
  comes last does. With a schema that declares both \<^verbatim>\<open>aB\<close> and \<^verbatim>\<open>a-b\<close>, the bag
  \<^verbatim>\<open>{'a-b': 'x'}\<close> holds the canonical field \<^verbatim>\<open>a-b\<close>, whose hyphenated spelling is itself,
  and the result is \<^verbatim>\<open>{aB: 'x'}\<close>: the key \<^verbatim>\<open>a-b\<close> is removed.
\<close>

theorem C7_chain_and_collision_counterexample:
  "resolveAliases [''a'' \<mapsto> VBool True, ''b'' \<mapsto> VBool False] (Some [(''a'', ''b''), (''b'', ''c'')])
     = [''c'' \<mapsto> VBool True]
   \<and> resolveAliases [''v'' \<mapsto> VBool True, ''V'' \<mapsto> VBool False, ''verbose'' \<mapsto> VStr ''x'']
       (Some [(''v'', ''verbose''), (''V'', ''verbose'')])
     = [''verbose'' \<mapsto> VBool False]
   \<and> resolveKebabCase [''a-b'' \<mapsto> VStr ''x'']
       \<lparr>shape = [(''aB'', ZodString), (''a-b'', ZodString)], parse = Inr\<rparr>
     = [''aB'' \<mapsto> VStr ''x'']"
proof (intro conjI)
  show "resolveAliases [''a'' \<mapsto> VBool True, ''b'' \<mapsto> VBool False] (Some [(''a'', ''b''), (''b'', ''c'')])
     = [''c'' \<mapsto> VBool True]"
    by (rule ext) (simp add: resolveAliases_def aliasStep_def ev)
  show "resolveAliases [''v'' \<mapsto> VBool True, ''V'' \<mapsto> VBool False, ''verbose'' \<mapsto> VStr ''x'']
       (Some [(''v'', ''verbose''), (''V'', ''verbose'')])
     = [''verbose'' \<mapsto> VBool False]"
    by (rule ext) (simp add: resolveAliases_def aliasStep_def ev)
  show "resolveKebabCase [''a-b'' \<mapsto> VStr ''x'']
       \<lparr>shape = [(''aB'', ZodString), (''a-b'', ZodString)], parse = Inr\<rparr>
     = [''aB'' \<mapsto> VStr ''x'']"
    by (rule ext) (simp add: resolveKebabCase_def kebabStep_def kebab_aB kebab_a_b ev)
qed

text \<open>
  Claim C7, amended. Names of members of \<^verbatim>\<open>Object.prototype\<close> are left out: alias keys and
  schema fields are taken not to be such names, and no alias targets \<^verbatim>\<open>__proto__\<close>.
  Aliases: for an alias map whose keys are distinct (it is an object) and whose targets are
  not themselves alias keys, an alias that is present in the flag object gives its value to
  its target, whatever the target held before, and is removed, provided no other alias of
  the same target is present as well. So \<^verbatim>\<open>{v: 'verbose'}\<close> applied to
  \<^verbatim>\<open>{v: true, verbose: false}\<close> gives \<^verbatim>\<open>{verbose: true}\<close>.
  Naming: for a schema whose field names are distinct and unambiguous (different fields have
  different hyphenated spellings, and the hyphenated spelling of a field is not the name of
  another field), a field that is absent from the flag object receives the value of its
  hyphenated spelling, if that is present, and the hyphenated key is removed; a field that is
  present keeps its value and its hyphenated spelling stays in the object untouched. Field
  names without a hyphen, as camelCase names are, are unambiguous.
\<close>

theorem C7_alias_and_naming_resolution:
  "(distinct (map fst als) \<and> snd ` set als \<inter> fst ` set als = {}
      \<and> (\<forall>(a, t) \<in> set als. a \<notin> set objectPrototypeKeys \<and> t \<noteq> ''__proto__'')
      \<and> (al, tg) \<in> set als
      \<and> flags al = Some v \<and> (\<forall>(a, t) \<in> set als. t = tg \<and> a \<noteq> al \<longrightarrow> flags a = None) \<longrightarrow>
        resolveAliases flags (Some als) tg = Some v \<and> resolveAliases flags (Some als) al = None)
   \<and> resolveAliases [''v'' \<mapsto> VBool True, ''verbose'' \<mapsto> VBool False] (Some [(''v'', ''verbose'')])
       = [''verbose'' \<mapsto> VBool True]
   \<and> (distinct (map fst (shape sch)) \<and> unambiguous (map fst (shape sch))
      \<and> (\<forall>c \<in> fst ` set (shape sch). c \<notin> set objectPrototypeKeys)
      \<and> field \<in> fst ` set (shape sch) \<longrightarrow>
        (bag field = None \<longrightarrow>
           resolveKebabCase bag sch field = bag (camelToKebab field)
           \<and> resolveKebabCase bag sch (camelToKebab field) = None)
        \<and> (bag field \<noteq> None \<longrightarrow>
           resolveKebabCase bag sch field = bag field
           \<and> resolveKebabCase bag sch (camelToKebab field) = bag (camelToKebab field)))
   \<and> ((\<forall>c \<in> set cs. CHR ''-'' \<notin> set c) \<longrightarrow> unambiguous cs)
   \<and> resolveKebabCase [''android-max'' \<mapsto> VStr ''10'']
        \<lparr>shape = [(''androidMax'', ZodString)], parse = p\<rparr>
       = [''androidMax'' \<mapsto> VStr ''10'']
   \<and> resolveKebabCase [''androidMax'' \<mapsto> VStr ''5'', ''android-max'' \<mapsto> VStr ''10'']
        \<lparr>shape = [(''androidMax'', ZodString)], parse = p\<rparr>
       = [''androidMax'' \<mapsto> VStr ''5'', ''android-max'' \<mapsto> VStr ''10'']"
proof (intro conjI impI)
  assume h: "distinct (map fst als) \<and> snd ` set als \<inter> fst ` set als = {}
      \<and> (\<forall>(a, t) \<in> set als. a \<notin> set objectPrototypeKeys \<and> t \<noteq> ''__proto__'')
      \<and> (al, tg) \<in> set als
      \<and> flags al = Some v \<and> (\<forall>(a, t) \<in> set als. t = tg \<and> a \<noteq> al \<longrightarrow> flags a = None)"
  show "resolveAliases flags (Some als) tg = Some v"
    using alias_wins(1) [of als al tg flags v] h by blast
  show "resolveAliases flags (Some als) al = None"
    using alias_wins(2) [of als al tg flags v] h by blast
next
  show "resolveAliases [''v'' \<mapsto> VBool True, ''verbose'' \<mapsto> VBool False] (Some [(''v'', ''verbose'')])
       = [''verbose'' \<mapsto> VBool True]"
    by (rule ext) (simp add: resolveAliases_def aliasStep_def ev)
next
  assume "\<forall>c \<in> set cs. CHR ''-'' \<notin> set c"
  then show "unambiguous cs" by (rule camelCase_unambiguous)
next
  show "resolveKebabCase [''android-max'' \<mapsto> VStr ''10'']
        \<lparr>shape = [(''androidMax'', ZodString)], parse = p\<rparr>
       = [''androidMax'' \<mapsto> VStr ''10'']"
    by (rule ext) (simp add: resolveKebabCase_def kebabStep_def kebab_androidMax ev)
next
  show "resolveKebabCase [''androidMax'' \<mapsto> VStr ''5'', ''android-max'' \<mapsto> VStr ''10'']
        \<lparr>shape = [(''androidMax'', ZodString)], parse = p\<rparr>
       = [''androidMax'' \<mapsto> VStr ''5'', ''android-max'' \<mapsto> VStr ''10'']"
    by (rule ext) (simp add: resolveKebabCase_def kebabStep_def kebab_androidMax ev)
next
  assume h: "distinct (map fst (shape sch)) \<and> unambiguous (map fst (shape sch))
      \<and> (\<forall>c \<in> fst ` set (shape sch). c \<notin> set objectPrototypeKeys)
      \<and> field \<in> fst ` set (shape sch)"
  then have d: "distinct (map fst (shape sch))"
    and u: "unambiguous (map fst (shape sch))"
    and w: "\<forall>c \<in> set (map fst (shape sch)). c \<notin> set objectPrototypeKeys"
    and m: "field \<in> set (map fst (shape sch))"
    by auto
  note kf = kebab_field [OF d u w m, of bag, folded resolveKebabCase_def]
  {
    assume "bag field = None"
    then show "resolveKebabCase bag sch field = bag (camelToKebab field)"
      and "resolveKebabCase bag sch (camelToKebab field) = None"
      using kf by simp_all
  }
  {
    assume "bag field \<noteq> None"
    then show "resolveKebabCase bag sch field = bag field"
      and "resolveKebabCase bag sch (camelToKebab field) = bag (camelToKebab field)"
      using kf by auto
  }
qed

theorem C7_alias_and_naming_resolution_witness:
  "resolveAliases [''v'' \<mapsto> VBool True, ''verbose'' \<mapsto> VBool False]
     (Some [(''v'', ''verbose''), (''n'', ''name'')]) ''verbose'' = Some (VBool True)
   \<and> resolveAliases [''v'' \<mapsto> VBool True, ''verbose'' \<mapsto> VBool False]
     (Some [(''v'', ''verbose''), (''n'', ''name'')]) ''v'' = None
   \<and> unambiguous [''androidMax'', ''verbose'']
   \<and> resolveKebabCase [''android-max'' \<mapsto> VStr ''10'']
       \<lparr>shape = [(''androidMax'', ZodString), (''verbose'', ZodBoolean)], parse = Inr\<rparr>
       ''androidMax'' = Some (VStr ''10'')
   \<and> resolveKebabCase [''android-max'' \<mapsto> VStr ''10'']
       \<lparr>shape = [(''androidMax'', ZodString), (''verbose'', ZodBoolean)], parse = Inr\<rparr>
       ''android-max'' = None
   \<and> resolveKebabCase [''androidMax'' \<mapsto> VStr ''5'', ''android-max'' \<mapsto> VStr ''10'']
       \<lparr>shape = [(''androidMax'', ZodString), (''verbose'', ZodBoolean)], parse = Inr\<rparr>
       ''androidMax'' = Some (VStr ''5'')
   \<and> resolveKebabCase [''androidMax'' \<mapsto> VStr ''5'', ''android-max'' \<mapsto> VStr ''10'']
       \<lparr>shape = [(''androidMax'', ZodString), (''verbose'', ZodBoolean)], parse = Inr\<rparr>
       ''android-max'' = Some (VStr ''10'')"
proof -
  note c7 = C7_alias_and_naming_resolution
  let ?als = "[(''v'', ''verbose''), (''n'', ''name'')]"
  let ?flags = "[''v'' \<mapsto> VBool True, ''verbose'' \<mapsto> VBool False]"
  let ?sch = "\<lparr>shape = [(''androidMax'', ZodString), (''verbose'', ZodBoolean)], parse = Inr\<rparr>"
  let ?cs = "[''androidMax'', ''verbose'']"
  let ?b1 = "[''android-max'' \<mapsto> VStr ''10'']"
  let ?b2 = "[''androidMax'' \<mapsto> VStr ''5'', ''android-max'' \<mapsto> VStr ''10'']"
  have ha: "distinct (map fst ?als) \<and> snd ` set ?als \<inter> fst ` set ?als = {}
            \<and> (\<forall>(a, t) \<in> set ?als. a \<notin> set objectPrototypeKeys \<and> t \<noteq> ''__proto__'')
            \<and> (''v'', ''verbose'') \<in> set ?als \<and> ?flags ''v'' = Some (VBool True)
            \<and> (\<forall>(a, t) \<in> set ?als. t = ''verbose'' \<and> a \<noteq> ''v'' \<longrightarrow> ?flags a = None)"
    by (simp add: objectPrototypeKeys_def)
  have hyphen_free: "\<forall>c \<in> set ?cs. CHR ''-'' \<notin> set c" by simp
  have un: "unambiguous ?cs"
    using c7 [of ?als "''v''" "''verbose''" ?flags "VBool True" ?sch "''androidMax''" ?b1 ?cs Inr]
      hyphen_free
    by blast
  have hs: "distinct (map fst (shape ?sch)) \<and> unambiguous (map fst (shape ?sch))
            \<and> (\<forall>c \<in> fst ` set (shape ?sch). c \<notin> set objectPrototypeKeys)
            \<and> ''androidMax'' \<in> fst ` set (shape ?sch)"
    using un by (simp add: objectPrototypeKeys_def)
  have absent: "?b1 ''androidMax'' = None" and present: "?b2 ''androidMax'' \<noteq> None"
    by simp_all
  have b1k: "?b1 ''android-max'' = Some (VStr ''10'')"
    and b2c: "?b2 ''androidMax'' = Some (VStr ''5'')"
    and b2k: "?b2 ''android-max'' = Some (VStr ''10'')"
    by simp_all
  have a: "resolveAliases ?flags (Some ?als) ''verbose'' = Some (VBool True)
        \<and> resolveAliases ?flags (Some ?als) ''v'' = None"
    using c7 [of ?als "''v''" "''verbose''" ?flags "VBool True" ?sch "''androidMax''" ?b1 ?cs Inr] ha
    by blast
  have "resolveKebabCase ?b1 ?sch ''androidMax'' = ?b1 (camelToKebab ''androidMax'')
        \<and> resolveKebabCase ?b1 ?sch (camelToKebab ''androidMax'') = None"
    using c7 [of ?als "''v''" "''verbose''" ?flags "VBool True" ?sch "''androidMax''" ?b1 ?cs Inr]
      hs absent
    by blast
  then have k1: "resolveKebabCase ?b1 ?sch ''androidMax'' = Some (VStr ''10'')
        \<and> resolveKebabCase ?b1 ?sch ''android-max'' = None"
    unfolding kebab_androidMax b1k .
  have "resolveKebabCase ?b2 ?sch ''androidMax'' = ?b2 ''androidMax''
        \<and> resolveKebabCase ?b2 ?sch (camelToKebab ''androidMax'')
            = ?b2 (camelToKebab ''androidMax'')"
    using c7 [of ?als "''v''" "''verbose''" ?flags "VBool True" ?sch "''androidMax''" ?b2 ?cs Inr]
      hs present
    by blast
  then have k2: "resolveKebabCase ?b2 ?sch ''androidMax'' = Some (VStr ''5'')
        \<and> resolveKebabCase ?b2 ?sch ''android-max'' = Some (VStr ''10'')"
    unfolding kebab_androidMax b2c b2k .
  show ?thesis using a un k1 k2 by blast
qed

section \<open>Array normalization\<close>

lemma parse_files:
  "parseFlags [''--files'', ''a.txt''] = [''files'' \<mapsto> VStr ''a.txt'', ''_'' \<mapsto> VArr []]"
  by (rule ext) (simp add: ev)

lemma parse_test: "parseFlags [''test''] = [''_'' \<mapsto> VArr [VStr ''test'']]"
  by (rule ext) (simp add: ev)

lemma parse_test_unknown:
  "parseFlags [''test'', ''--unknown''] = [''unknown'' \<mapsto> VBool True, ''_'' \<mapsto> VArr [VStr ''test'']]"
  by (rule ext) (simp add: ev)

text \<open>
  Claim C8 says that a field that is not present in the bag is left unchanged. The code
  tests \<^verbatim>\<open>key in normalized\<close>, which is true for a field that bears the name of a member of
  \<^verbatim>\<open>Object.prototype\<close>: for the schema
  \<^verbatim>\<open>z.object({ constructor: z.array(z.string()).optional() })\<close> and an object without a
  property \<^verbatim>\<open>constructor\<close> the loop reads the inherited function, finds that it is no array
  and stores the one-element array of it, so that for the argument vector \<^verbatim>\<open>['test']\<close> the
  validator receives \<^verbatim>\<open>{ constructor: [Object] }\<close> and not \<^verbatim>\<open>{}\<close>. For the field \<^verbatim>\<open>files\<close> the
  code does what the claim says: absent it stays absent, a string becomes the one-element
  array, an array stays as it is, under \<^verbatim>\<open>ZodOptional\<close> and \<^verbatim>\<open>ZodDefault\<close> wrappers as well, and
  for \<^verbatim>\<open>--files a.txt\<close> the validator receives \<^verbatim>\<open>{ files: ['a.txt'] }\<close>.
\<close>

theorem C8_inherited_field_wrapped:
  "normalizeArrayFields Map.empty (schema (constructorOptions p)) ''constructor''
     = Some (VArr [VInherited ''constructor''])
   \<and> validateOptions (parseFlags [''test'']) (Some (constructorOptions p))
     = p [''constructor'' \<mapsto> VArr [VInherited ''constructor'']]
   \<and> normalizeArrayFields Map.empty
        \<lparr>shape = [(''files'', ZodArray ZodString)], parse = p\<rparr> = Map.empty
   \<and> normalizeArrayFields [''files'' \<mapsto> VStr ''a.txt'']
        \<lparr>shape = [(''files'', ZodOptional (ZodDefault (ZodArray ZodString)))], parse = p\<rparr>
     = [''files'' \<mapsto> VArr [VStr ''a.txt'']]
   \<and> normalizeArrayFields [''files'' \<mapsto> VArr [VStr ''a.txt'', VStr ''b.txt'']]
        \<lparr>shape = [(''files'', ZodArray ZodString)], parse = p\<rparr>
     = [''files'' \<mapsto> VArr [VStr ''a.txt'', VStr ''b.txt'']]
   \<and> normalizeArrayFields [''files'' \<mapsto> VStr ''a.txt'']
        \<lparr>shape = [(''files'', ZodString)], parse = p\<rparr>
     = [''files'' \<mapsto> VStr ''a.txt'']
   \<and> validateOptions (parseFlags [''--files'', ''a.txt''])
        (Some \<lparr>schema = \<lparr>shape = [(''files'', ZodArray ZodString)], parse = p\<rparr>, aliases = None\<rparr>)
       = p [''files'' \<mapsto> VArr [VStr ''a.txt'']]"
proof (intro conjI)
  show "normalizeArrayFields Map.empty (schema (constructorOptions p)) ''constructor''
     = Some (VArr [VInherited ''constructor''])"
    by (simp add: normalizeArrayFields_def normalizeStep_def constructorOptions_def ev)
  have c: "normalizeArrayFields
          ((spread (resolveKebabCase (resolveAliases [''_'' \<mapsto> VArr [VStr ''test'']] None)
              \<lparr>shape = [(''constructor'', ZodOptional (ZodArray ZodString))], parse = p\<rparr>))
             (''_'' := None))
          \<lparr>shape = [(''constructor'', ZodOptional (ZodArray ZodString))], parse = p\<rparr>
        = [''constructor'' \<mapsto> VArr [VInherited ''constructor'']]"
    by (rule ext)
       (simp add: normalizeArrayFields_def normalizeStep_def resolveKebabCase_def kebabStep_def
          resolveAliases_def ev)
  show "validateOptions (parseFlags [''test'']) (Some (constructorOptions p))
     = p [''constructor'' \<mapsto> VArr [VInherited ''constructor'']]"
    by (simp add: validateOptions_def constructorOptions_def parse_test c)
  show "normalizeArrayFields Map.empty
        \<lparr>shape = [(''files'', ZodArray ZodString)], parse = p\<rparr> = Map.empty"
    by (rule ext) (simp add: normalizeArrayFields_def normalizeStep_def ev)
  show "normalizeArrayFields [''files'' \<mapsto> VStr ''a.txt'']
        \<lparr>shape = [(''files'', ZodOptional (ZodDefault (ZodArray ZodString)))], parse = p\<rparr>
     = [''files'' \<mapsto> VArr [VStr ''a.txt'']]"
    by (rule ext) (simp add: normalizeArrayFields_def normalizeStep_def ev)
  show "normalizeArrayFields [''files'' \<mapsto> VArr [VStr ''a.txt'', VStr ''b.txt'']]
        \<lparr>shape = [(''files'', ZodArray ZodString)], parse = p\<rparr>
     = [''files'' \<mapsto> VArr [VStr ''a.txt'', VStr ''b.txt'']]"
    by (rule ext) (simp add: normalizeArrayFields_def normalizeStep_def ev)
  show "normalizeArrayFields [''files'' \<mapsto> VStr ''a.txt'']
        \<lparr>shape = [(''files'', ZodString)], parse = p\<rparr>
     = [''files'' \<mapsto> VStr ''a.txt'']"
    by (rule ext) (simp add: normalizeArrayFields_def normalizeStep_def ev)
  have f: "normalizeArrayFields
          ((spread (resolveKebabCase
              (resolveAliases [''files'' \<mapsto> VStr ''a.txt'', ''_'' \<mapsto> VArr []] None)
              \<lparr>shape = [(''files'', ZodArray ZodString)], parse = p\<rparr>))(''_'' := None))
          \<lparr>shape = [(''files'', ZodArray ZodString)], parse = p\<rparr>
        = [''files'' \<mapsto> VArr [VStr ''a.txt'']]"
    by (rule ext)
       (simp add: normalizeArrayFields_def normalizeStep_def resolveKebabCase_def kebabStep_def
          resolveAliases_def camelToKebab_def isUpper_def ev)
  show "validateOptions (parseFlags [''--files'', ''a.txt''])
        (Some \<lparr>schema = \<lparr>shape = [(''files'', ZodArray ZodString)], parse = p\<rparr>, aliases = None\<rparr>)
       = p [''files'' \<mapsto> VArr [VStr ''a.txt'']]"
    by (simp add: validateOptions_def parse_files f)
qed

section \<open>Unknown options and validation failures\<close>

text \<open>
  Claim C1 asks for an \<^verbatim>\<open>UnknownOption\<close> error for every flag that is not a field of the
  schema, before any validation. \<^verbatim>\<open>validateOptions\<close> has no such check. For
  \<^verbatim>\<open>['test', '--unknown']\<close> and a command without an options definition the processing
  returns a result with the options \<^verbatim>\<open>{}\<close>; for a command whose schema declares only
  \<^verbatim>\<open>verbose\<close> the object \<^verbatim>\<open>{ unknown: true }\<close> goes to the validator, and the outcome is
  whatever the validator makes of it.
\<close>

theorem C1_unknown_option_not_rejected:
  "processConfig plainConfig [''test'', ''--unknown'']
     = ([], Return \<lparr>command = plainCommand, res_options = Map.empty, res_args = VArr []\<rparr>)
   \<and> processConfig (verboseConfig p) [''test'', ''--unknown'']
     = (case p [''unknown'' \<mapsto> VBool True] of
          Inl e \<Rightarrow> ([], Throw e)
        | Inr opts \<Rightarrow>
            ([], Return \<lparr>command = verboseCommand p, res_options = opts, res_args = VArr []\<rparr>))"
proof
  show "processConfig plainConfig [''test'', ''--unknown'']
     = ([], Return \<lparr>command = plainCommand, res_options = Map.empty, res_args = VArr []\<rparr>)"
    by (simp add: processConfig_def parse_test_unknown positionals_def plainConfig_def
          plainCommand_def processCommandExecution_def validateOptions_def finish_def)
  have m: "normalizeArrayFields
             ((spread (resolveKebabCase
                 (resolveAliases [''unknown'' \<mapsto> VBool True, ''_'' \<mapsto> VArr [VStr ''test'']] None)
                 \<lparr>shape = [(''verbose'', ZodDefault ZodBoolean)], parse = p\<rparr>))(''_'' := None))
             \<lparr>shape = [(''verbose'', ZodDefault ZodBoolean)], parse = p\<rparr>
           = [''unknown'' \<mapsto> VBool True]"
    by (rule ext)
       (simp add: normalizeArrayFields_def normalizeStep_def resolveKebabCase_def kebabStep_def
          resolveAliases_def camelToKebab_def isUpper_def ev)
  show "processConfig (verboseConfig p) [''test'', ''--unknown'']
     = (case p [''unknown'' \<mapsto> VBool True] of
          Inl e \<Rightarrow> ([], Throw e)
        | Inr opts \<Rightarrow>
            ([], Return \<lparr>command = verboseCommand p, res_options = opts, res_args = VArr []\<rparr>))"
    by (simp add: processConfig_def parse_test_unknown positionals_def verboseConfig_def
          verboseCommand_def processCommandExecution_def validateOptions_def finish_def m
          split: sum.split)
qed

text \<open>
  Claim C2 asks that every validation failure, of the options as of the positionals, is
  re-signaled as one uniform error. \<^verbatim>\<open>processCommandExecution\<close> does this for the positionals
  only: a \<^verbatim>\<open>ZodError\<close> of the args schema becomes the \<^verbatim>\<open>Error\<close>
  \<^verbatim>\<open>Argument validation failed: <path>: <message>, ...\<close>. \<^verbatim>\<open>validateOptions\<close> calls
  \<^verbatim>\<open>schema.parse\<close> outside any \<^verbatim>\<open>try\<close>: whatever the validator throws for the options,
  its \<^verbatim>\<open>ZodError\<close> included, reaches the caller as it is.
\<close>

theorem C2_option_validation_error_not_wrapped:
  "processConfig (nameConfig p) [''test'']
     = (case p Map.empty of
          Inl e \<Rightarrow> ([], Throw e)
        | Inr opts \<Rightarrow>
            ([], Return \<lparr>command = nameCommand p, res_options = opts, res_args = VArr []\<rparr>))
   \<and> processConfig
         (nameConfig (\<lambda>b. Inl (ZodError [\<lparr>path = [''name''], message = ''Required''\<rparr>])))
         [''test'']
     = ([], Throw (ZodError [\<lparr>path = [''name''], message = ''Required''\<rparr>]))
   \<and> processConfig
         (argsConfig (\<lambda>a. Inl (ZodError [\<lparr>path = [''0''], message = ''Required''\<rparr>,
                                          \<lparr>path = [''1''], message = ''Required''\<rparr>])))
         [''test'']
     = ([], Throw (Error ''Argument validation failed: 0: Required, 1: Required''))"
proof -
  have m: "\<And>q. normalizeArrayFields
             ((spread (resolveKebabCase (resolveAliases [''_'' \<mapsto> VArr [VStr ''test'']] None)
                 \<lparr>shape = [(''name'', ZodString)], parse = q\<rparr>))(''_'' := None))
             \<lparr>shape = [(''name'', ZodString)], parse = q\<rparr>
           = Map.empty"
    by (rule ext)
       (simp add: normalizeArrayFields_def normalizeStep_def resolveKebabCase_def kebabStep_def
          resolveAliases_def camelToKebab_def isUpper_def ev)
  have general: "\<And>q. processConfig (nameConfig q) [''test'']
     = (case q Map.empty of
          Inl e \<Rightarrow> ([], Throw e)
        | Inr opts \<Rightarrow>
            ([], Return \<lparr>command = nameCommand q, res_options = opts, res_args = VArr []\<rparr>))"
    by (simp add: processConfig_def parse_test positionals_def nameConfig_def
          nameCommand_def processCommandExecution_def validateOptions_def finish_def m
          split: sum.split)
  have positional: "processConfig
         (argsConfig (\<lambda>a. Inl (ZodError [\<lparr>path = [''0''], message = ''Required''\<rparr>,
                                          \<lparr>path = [''1''], message = ''Required''\<rparr>])))
         [''test'']
     = ([], Throw (Error ''Argument validation failed: 0: Required, 1: Required''))"
    by (simp add: processConfig_def parse_test positionals_def argsConfig_def
          argsCommand_def processCommandExecution_def validateOptions_def finish_def issueText_def)
  show ?thesis
    using general [of p]
      general [of "\<lambda>b. Inl (ZodError [\<lparr>path = [''name''], message = ''Required''\<rparr>])"]
      positional
    by simp
qed

end
